theory Spec2Isabelle
  imports Complex_Main "HOL-Library.AList"
begin

section \<open>Python values used by the automata\<close>

text \<open>
  Python strings are modelled as \<^typ>\<open>string\<close>, one \<^typ>\<open>char\<close> per code point,
  restricted to the code points 0..255. An uncaught Python exception is a value of
  \<open>py_error\<close>, and a method that can raise returns \<open>py_error + 'a\<close>.
\<close>

datatype py_error = AttributeError | KeyError

definition bind_err :: "'e + 'a \<Rightarrow> ('a \<Rightarrow> 'e + 'b) \<Rightarrow> 'e + 'b" where
  "bind_err m f = (case m of Inl e \<Rightarrow> Inl e | Inr x \<Rightarrow> f x)"

definition startswith :: "string \<Rightarrow> string \<Rightarrow> bool" where
  "startswith s p = (take (length p) s = p)"

section \<open>pushdown\_automata.py\<close>

datatype StateType = INITIAL | NORMAL | ACCEPTING | ERROR

record PDAState =
  name :: string
  state_type :: StateType
  description :: string

text \<open>\<open>PDAState.__eq__\<close> compares the names only; the right operand may be \<open>None\<close>.\<close>

definition PDAState_eq :: "PDAState \<Rightarrow> PDAState option \<Rightarrow> bool" where
  "PDAState_eq s other = (case other of None \<Rightarrow> False | Some t \<Rightarrow> name s = name t)"

record PDATransition =
  from_state :: PDAState
  to_state :: PDAState
  input_symbol :: "string option"
  stack_top :: "string option"
  stack_action :: string
  t_description :: string

definition PDATransition_matches ::
  "PDATransition \<Rightarrow> PDAState option \<Rightarrow> string option \<Rightarrow> string option \<Rightarrow> bool" where
  "PDATransition_matches t cur input_sym stk_top =
     (if \<not> PDAState_eq (from_state t) cur then False
      else if input_symbol t \<noteq> None \<and> input_symbol t \<noteq> input_sym then False
      else if stack_top t \<noteq> None \<and> stack_top t \<noteq> stk_top then False
      else True)"

text \<open>
  \<open>PDAStack\<close>: the list \<open>stack_list\<close> is Python's \<open>_stack\<close>, bottom marker first and the
  top of the stack last (\<open>append\<close> and \<open>pop\<close> work at the end of the list).
\<close>

record PDAStack =
  stack_list :: "string list"
  stack_history :: "(string \<times> string list) list"
  initial_symbol :: string

definition PDAStack_init :: "string \<Rightarrow> PDAStack" where
  "PDAStack_init z = \<lparr>stack_list = [z], stack_history = [], initial_symbol = z\<rparr>"

definition PDAStack_push :: "PDAStack \<Rightarrow> string \<Rightarrow> PDAStack" where
  "PDAStack_push s symbol =
     (let st = stack_list s @ [symbol]
      in s\<lparr>stack_list := st, stack_history := stack_history s @ [(''push:'' @ symbol, st)]\<rparr>)"

definition PDAStack_pop :: "PDAStack \<Rightarrow> string option \<times> PDAStack" where
  "PDAStack_pop s =
     (if length (stack_list s) > 1 then
        (let symbol = last (stack_list s); st = butlast (stack_list s)
         in (Some symbol,
             s\<lparr>stack_list := st, stack_history := stack_history s @ [(''pop:'' @ symbol, st)]\<rparr>))
      else (None, s))"

definition PDAStack_peek :: "PDAStack \<Rightarrow> string option" where
  "PDAStack_peek s = (if stack_list s \<noteq> [] then Some (last (stack_list s)) else None)"

definition PDAStack_is_empty :: "PDAStack \<Rightarrow> bool" where
  "PDAStack_is_empty s = (length (stack_list s) \<le> 1)"

definition PDAStack_size :: "PDAStack \<Rightarrow> int" where
  "PDAStack_size s = int (length (stack_list s)) - 1"

definition PDAStack_clear :: "PDAStack \<Rightarrow> PDAStack" where
  "PDAStack_clear s = s\<lparr>stack_list := [initial_symbol s], stack_history := []\<rparr>"

definition PDAStack_get_contents :: "PDAStack \<Rightarrow> string list" where
  "PDAStack_get_contents s = stack_list s"

record PDAConfiguration =
  cfg_state :: "PDAState option"
  remaining_input :: string
  stack_contents :: "string list"

text \<open>
  \<open>PushdownAutomata\<close>: the dict \<open>states\<close> is an association list in insertion order
  (assigning to a key that exists keeps its place, as \<open>AList.update\<close> does).
\<close>

record PushdownAutomata =
  pda_name :: string
  states :: "(string \<times> PDAState) list"
  transitions :: "PDATransition list"
  initial_state :: "PDAState option"
  current_state :: "PDAState option"
  stack :: PDAStack
  input_alphabet :: "string set"
  stack_alphabet :: "string set"
  execution_history :: "PDAConfiguration list"
  transition_history :: "PDATransition list"

definition PDA_init :: "string \<Rightarrow> PushdownAutomata" where
  "PDA_init nm =
     \<lparr>pda_name = nm, states = [], transitions = [], initial_state = None,
      current_state = None, stack = PDAStack_init ''Z0'', input_alphabet = {},
      stack_alphabet = {''Z0''}, execution_history = [], transition_history = []\<rparr>"

definition PDA_add_state ::
  "PushdownAutomata \<Rightarrow> string \<Rightarrow> StateType \<Rightarrow> string \<Rightarrow> PushdownAutomata" where
  "PDA_add_state p nm ty descr =
     (let state = \<lparr>name = nm, state_type = ty, description = descr\<rparr>;
          p1 = p\<lparr>states := AList.update nm state (states p)\<rparr>
      in if ty = INITIAL then p1\<lparr>initial_state := Some state, current_state := Some state\<rparr>
         else p1)"

definition PDA_add_transition ::
  "PushdownAutomata \<Rightarrow> string \<Rightarrow> string \<Rightarrow> string option \<Rightarrow> string option \<Rightarrow> string
     \<Rightarrow> string \<Rightarrow> py_error + PushdownAutomata" where
  "PDA_add_transition p from_nm to_nm input_sym stk_top action descr =
     (case map_of (states p) from_nm of
        None \<Rightarrow> Inl KeyError
      | Some from_s \<Rightarrow>
          (case map_of (states p) to_nm of
             None \<Rightarrow> Inl KeyError
           | Some to_s \<Rightarrow>
               (let transition = \<lparr>from_state = from_s, to_state = to_s,
                                   input_symbol = input_sym, stack_top = stk_top,
                                   stack_action = action, t_description = descr\<rparr>;
                    p1 = p\<lparr>transitions := transitions p @ [transition]\<rparr>
                in Inr (case input_sym of
                          None \<Rightarrow> p1
                        | Some isym \<Rightarrow>
                            if isym \<noteq> [] then p1\<lparr>input_alphabet := insert isym (input_alphabet p1)\<rparr>
                            else p1))))"

definition PDA_reset :: "PushdownAutomata \<Rightarrow> PushdownAutomata" where
  "PDA_reset p =
     p\<lparr>current_state := initial_state p, stack := PDAStack_clear (stack p),
       execution_history := [], transition_history := []\<rparr>"

definition PDA_execute_stack_action :: "PushdownAutomata \<Rightarrow> string \<Rightarrow> bool \<times> PushdownAutomata" where
  "PDA_execute_stack_action p action =
     (if action = ''none'' then (True, p)
      else if startswith action ''push:'' then
        (let symbol = drop 5 action
         in (True, p\<lparr>stack := PDAStack_push (stack p) symbol,
                      stack_alphabet := insert symbol (stack_alphabet p)\<rparr>))
      else if action = ''pop'' then
        (let (result, s1) = PDAStack_pop (stack p)
         in (result \<noteq> None, p\<lparr>stack := s1\<rparr>))
      else if startswith action ''replace:'' then
        (let symbol = drop 8 action;
             s1 = snd (PDAStack_pop (stack p))
         in (True, p\<lparr>stack := PDAStack_push s1 symbol,
                      stack_alphabet := insert symbol (stack_alphabet p)\<rparr>))
      else (False, p))"

definition PDA_find_transition :: "PushdownAutomata \<Rightarrow> string option \<Rightarrow> PDATransition option" where
  "PDA_find_transition p input_sym =
     (let stk_top = PDAStack_peek (stack p)
      in case find (\<lambda>t. PDATransition_matches t (current_state p) input_sym stk_top) (transitions p) of
           Some t \<Rightarrow> Some t
         | None \<Rightarrow>
             if input_sym \<noteq> None then
               find (\<lambda>t. PDATransition_matches t (current_state p) None stk_top) (transitions p)
             else None)"

definition PDA_goto_error :: "PushdownAutomata \<Rightarrow> PushdownAutomata" where
  "PDA_goto_error p =
     (case map_of (states p) ''q_error'' of
        Some e \<Rightarrow> p\<lparr>current_state := Some e\<rparr>
      | None \<Rightarrow> p)"

text \<open>
  \<open>step\<close> returns \<open>(success, error_message)\<close> and the automaton after the call. Formatting the
  no-transition message reads \<open>self.current_state.name\<close>, which raises \<open>AttributeError\<close>
  when there is no current state.
\<close>

definition PDA_step ::
  "PushdownAutomata \<Rightarrow> string \<Rightarrow> py_error + ((bool \<times> string option) \<times> PushdownAutomata)" where
  "PDA_step p input_sym =
     (let config = \<lparr>cfg_state = current_state p, remaining_input = input_sym,
                     stack_contents = PDAStack_get_contents (stack p)\<rparr>;
          p1 = p\<lparr>execution_history := execution_history p @ [config]\<rparr>
      in case PDA_find_transition p1 (Some input_sym) of
           None \<Rightarrow>
             (let p2 = PDA_goto_error p1
              in case current_state p2 of
                   None \<Rightarrow> Inl AttributeError
                 | Some cur \<Rightarrow>
                     Inr ((False, Some (''No valid transition for input '' @ [CHR 0x27] @ input_sym
                                        @ [CHR 0x27] @ '' in state '' @ [CHR 0x27] @ name cur
                                        @ [CHR 0x27])), p2))
         | Some transition \<Rightarrow>
             (let (ok, p2) = PDA_execute_stack_action p1 (stack_action transition)
              in if \<not> ok then
                   Inr ((False, Some (''Stack action '' @ [CHR 0x27] @ stack_action transition
                                      @ [CHR 0x27] @ '' failed'')), PDA_goto_error p2)
                 else
                   Inr ((True, None),
                        p2\<lparr>current_state := Some (to_state transition),
                           transition_history := transition_history p2 @ [transition]\<rparr>)))"

text \<open>
  \<open>process\<close> returns \<open>(accepted, message, execution_history)\<close>. The loop over the input is
  \<open>PDA_process_loop\<close>; its result is \<open>Inl\<close> of the early return taken at a failing step, or
  \<open>Inr\<close> of the automaton after the last symbol.
\<close>

type_synonym process_result = "bool \<times> string option \<times> PDAConfiguration list"

fun PDA_process_loop ::
  "PushdownAutomata \<Rightarrow> string list
     \<Rightarrow> py_error + ((process_result \<times> PushdownAutomata) + PushdownAutomata)" where
  "PDA_process_loop p [] = Inr (Inr p)"
| "PDA_process_loop p (symbol # rest) =
     (case PDA_step p symbol of
        Inl e \<Rightarrow> Inl e
      | Inr ((success, error), p1) \<Rightarrow>
          if \<not> success then Inr (Inl ((False, error, execution_history p1), p1))
          else PDA_process_loop p1 rest)"

definition PDA_process ::
  "PushdownAutomata \<Rightarrow> string list \<Rightarrow> py_error + (process_result \<times> PushdownAutomata)" where
  "PDA_process p input_string =
     (case PDA_process_loop (PDA_reset p) input_string of
        Inl e \<Rightarrow> Inl e
      | Inr (Inl early) \<Rightarrow> Inr early
      | Inr (Inr p1) \<Rightarrow>
          (case current_state p1 of
             None \<Rightarrow> Inl AttributeError
           | Some cur \<Rightarrow>
               if state_type cur = ACCEPTING then
                 Inr ((True, Some ''Input accepted'', execution_history p1), p1)
               else if state_type cur = ERROR then
                 Inr ((False, Some ''Ended in error state'', execution_history p1), p1)
               else
                 Inr ((False, Some (''Ended in non-accepting state '' @ [CHR 0x27] @ name cur
                                    @ [CHR 0x27]), execution_history p1), p1)))"

definition PDA_is_accepting :: "PushdownAutomata \<Rightarrow> bool" where
  "PDA_is_accepting p =
     (case current_state p of None \<Rightarrow> False | Some cur \<Rightarrow> state_type cur = ACCEPTING)"

definition PDA_get_current_configuration :: "PushdownAutomata \<Rightarrow> PDAConfiguration" where
  "PDA_get_current_configuration p =
     \<lparr>cfg_state = current_state p, remaining_input = [],
      stack_contents = PDAStack_get_contents (stack p)\<rparr>"

text \<open>
  The operations a client can apply to the stack of an automaton: the three methods of
  \<open>PDAStack\<close> that change it, and \<open>replace\<close> as \<open>_execute_stack_action\<close> performs it
  (a \<open>pop\<close> whose result is dropped, then a \<open>push\<close>).
\<close>

datatype stack_op = Push string | Pop | Replace string | Clear

fun apply_stack_op :: "PDAStack \<Rightarrow> stack_op \<Rightarrow> PDAStack" where
  "apply_stack_op s (Push x) = PDAStack_push s x"
| "apply_stack_op s Pop = snd (PDAStack_pop s)"
| "apply_stack_op s (Replace x) = PDAStack_push (snd (PDAStack_pop s)) x"
| "apply_stack_op s Clear = PDAStack_clear s"

text \<open>
  Stepping through a list of symbols with \<open>step\<close>, one call per symbol: the automaton
  reached when every call reports success, \<open>None\<close> as soon as one call fails or raises.
\<close>

fun PDA_run :: "PushdownAutomata \<Rightarrow> string list \<Rightarrow> PushdownAutomata option" where
  "PDA_run p [] = Some p"
| "PDA_run p (x # xs) =
     (case PDA_step p x of
        Inl e \<Rightarrow> None
      | Inr (r, p1) \<Rightarrow> if fst r then PDA_run p1 xs else None)"

text \<open>The stack holds its bottom marker: the list is not empty and starts with it.\<close>

definition stack_inv :: "PDAStack \<Rightarrow> bool" where
  "stack_inv s = (stack_list s \<noteq> [] \<and> hd (stack_list s) = initial_symbol s)"

text \<open>
  A small configured automaton for concrete runs: \<open>q0\<close> (initial) goes to \<open>q1\<close> (accepting)
  on \<open>a\<close> with the given stack action, \<open>q1\<close> goes back to \<open>q0\<close> on \<open>b\<close>, and \<open>q_error\<close>
  is the error state.
\<close>

definition demo_pda :: "string \<Rightarrow> PushdownAutomata" where
  "demo_pda action =
     (let q0 = \<lparr>name = ''q0'', state_type = INITIAL, description = []\<rparr>;
          q1 = \<lparr>name = ''q1'', state_type = ACCEPTING, description = []\<rparr>;
          qe = \<lparr>name = ''q_error'', state_type = ERROR, description = []\<rparr>
      in (PDA_init ''demo'')
           \<lparr>states := [(''q0'', q0), (''q1'', q1), (''q_error'', qe)],
            transitions :=
              [\<lparr>from_state = q0, to_state = q1, input_symbol = Some ''a'', stack_top = None,
                 stack_action = action, t_description = []\<rparr>,
               \<lparr>from_state = q1, to_state = q0, input_symbol = Some ''b'', stack_top = None,
                 stack_action = ''none'', t_description = []\<rparr>],
            initial_state := Some q0, current_state := Some q0\<rparr>)"

section \<open>state\_machine.py\<close>

text \<open>
  A \<open>StateNode\<close> owns its children, so the trie is a tree of node values; the dict
  \<open>transitions\<close> is an association list in insertion order.
\<close>

datatype StateNode =
  StateNode (state_id: nat) (node_transitions: "(string \<times> StateNode) list")
    (combo_name: "string option") (is_accept: bool)

definition StateNode_new :: "nat \<Rightarrow> StateNode" where
  "StateNode_new i = StateNode i [] None False"

definition StateNode_add_transition :: "StateNode \<Rightarrow> string \<Rightarrow> StateNode \<Rightarrow> StateNode" where
  "StateNode_add_transition n input_sym next_state =
     StateNode (state_id n) (AList.update input_sym next_state (node_transitions n))
       (combo_name n) (is_accept n)"

definition StateNode_get_next_state :: "StateNode \<Rightarrow> string \<Rightarrow> StateNode option" where
  "StateNode_get_next_state n input_sym = map_of (node_transitions n) input_sym"

definition StateNode_has_transition :: "StateNode \<Rightarrow> string \<Rightarrow> bool" where
  "StateNode_has_transition n input_sym = (map_of (node_transitions n) input_sym \<noteq> None)"

text \<open>
  \<open>ComboStateMachine\<close>. The attribute \<open>current_state\<close> refers to a node of the trie under
  \<open>root\<close>; the model keeps it as \<open>current_path\<close>, the symbols that lead from the root to that
  node, and \<open>node_at\<close> reads the node. The cursor only ever moves along transitions that
  exist and nodes are never removed, so the path always leads to a node; on any other path
  \<open>node_at\<close> stops at the last node it finds.
\<close>

record ComboStateMachine =
  state_counter :: nat
  root :: StateNode
  current_path :: "string list"
  combo_list :: "(string list \<times> string) list"
  input_history :: "string list"

fun node_at :: "StateNode \<Rightarrow> string list \<Rightarrow> StateNode" where
  "node_at n [] = n"
| "node_at n (x # xs) =
     (case StateNode_get_next_state n x of None \<Rightarrow> n | Some c \<Rightarrow> node_at c xs)"

definition CSM_init :: ComboStateMachine where
  "CSM_init =
     \<lparr>state_counter = 1, root = StateNode_new 0, current_path = [], combo_list = [],
      input_history = []\<rparr>"

text \<open>
  The inner loop of \<open>build_from_combos\<close> for one combo: \<open>add_combo current sequence name counter\<close>
  walks the sequence from \<open>current\<close>, creates the missing children with the next free ids,
  marks the last node as accepting, and returns the node with these updates and the counter.
\<close>

fun add_combo :: "StateNode \<Rightarrow> string list \<Rightarrow> string \<Rightarrow> nat \<Rightarrow> StateNode \<times> nat" where
  "add_combo current [] nm counter =
     (StateNode (state_id current) (node_transitions current) (Some nm) True, counter)"
| "add_combo current (input_sym # rest) nm counter =
     (if \<not> StateNode_has_transition current input_sym then
        (let (child, counter1) = add_combo (StateNode_new counter) rest nm (counter + 1)
         in (StateNode_add_transition current input_sym child, counter1))
      else
        (case StateNode_get_next_state current input_sym of
           Some next_state \<Rightarrow>
             (let (child, counter1) = add_combo next_state rest nm counter
              in (StateNode_add_transition current input_sym child, counter1))
         | None \<Rightarrow> (current, counter)))"

definition CSM_build_from_combos ::
  "ComboStateMachine \<Rightarrow> (string list \<times> string) list \<Rightarrow> ComboStateMachine" where
  "CSM_build_from_combos m combos =
     (let (r, counter) =
            foldl (\<lambda>(r, counter) (sequence, nm). add_combo r sequence nm counter)
              (root m, state_counter m) combos
      in m\<lparr>combo_list := combos, root := r, state_counter := counter\<rparr>)"

definition CSM_reset :: "ComboStateMachine \<Rightarrow> ComboStateMachine" where
  "CSM_reset m = m\<lparr>current_path := [], input_history := []\<rparr>"

definition CSM_check_accept :: "ComboStateMachine \<Rightarrow> string option \<times> ComboStateMachine" where
  "CSM_check_accept m =
     (let cur = node_at (root m) (current_path m)
      in if is_accept cur then (combo_name cur, CSM_reset m) else (None, m))"

definition CSM_process_input ::
  "ComboStateMachine \<Rightarrow> string \<Rightarrow> string option \<times> ComboStateMachine" where
  "CSM_process_input m input_sym =
     (case StateNode_get_next_state (node_at (root m) (current_path m)) input_sym of
        None \<Rightarrow>
          (case StateNode_get_next_state (root m) input_sym of
             None \<Rightarrow> (None, CSM_reset m)
           | Some next_state \<Rightarrow>
               CSM_check_accept (m\<lparr>input_history := [input_sym], current_path := [input_sym]\<rparr>))
      | Some next_state \<Rightarrow>
          CSM_check_accept (m\<lparr>input_history := input_history m @ [input_sym],
                              current_path := current_path m @ [input_sym]\<rparr>))"

definition CSM_get_current_state_id :: "ComboStateMachine \<Rightarrow> nat" where
  "CSM_get_current_state_id m = state_id (node_at (root m) (current_path m))"

definition CSM_get_possible_transitions :: "ComboStateMachine \<Rightarrow> string list" where
  "CSM_get_possible_transitions m = map fst (node_transitions (node_at (root m) (current_path m)))"

text \<open>
  \<open>get_progress_percentage\<close>: \<open>history_is_prefix\<close> is the inner loop over the history (it
  stops with \<open>False\<close> at the first index that is beyond the sequence or differs),
  \<open>longest_match\<close> the outer loop with its running \<open>max_length\<close>. The result is the quotient
  of two integers, kept as an exact rational number.
\<close>

fun history_is_prefix :: "string list \<Rightarrow> string list \<Rightarrow> bool" where
  "history_is_prefix [] sequence = True"
| "history_is_prefix (s # rest) [] = False"
| "history_is_prefix (s # rest) (x # xs) = (if x \<noteq> s then False else history_is_prefix rest xs)"

fun longest_match :: "string list \<Rightarrow> (string list \<times> string) list \<Rightarrow> nat \<Rightarrow> nat" where
  "longest_match history [] max_length = max_length"
| "longest_match history ((sequence, nm) # rest) max_length =
     (if length sequence > max_length \<and> history_is_prefix history sequence
      then longest_match history rest (length sequence)
      else longest_match history rest max_length)"

definition CSM_get_progress_percentage :: "ComboStateMachine \<Rightarrow> rat" where
  "CSM_get_progress_percentage m =
     (if input_history m = [] then 0
      else (let max_length = longest_match (input_history m) (combo_list m) 0
            in if max_length = 0 then 0
               else of_nat (length (input_history m)) / of_nat max_length))"

text \<open>Feeding a list of symbols, one \<open>process_input\<close> call each: the results and the machine.\<close>

fun CSM_feed ::
  "ComboStateMachine \<Rightarrow> string list \<Rightarrow> string option list \<times> ComboStateMachine" where
  "CSM_feed m [] = ([], m)"
| "CSM_feed m (x # xs) =
     (let (r, m1) = CSM_process_input m x; (rs, m2) = CSM_feed m1 xs in (r # rs, m2))"

text \<open>The paths of symbols that lead from a node to a node below it (or to itself).\<close>

fun is_path :: "StateNode \<Rightarrow> string list \<Rightarrow> bool" where
  "is_path n [] = True"
| "is_path n (x # xs) =
     (case StateNode_get_next_state n x of None \<Rightarrow> False | Some c \<Rightarrow> is_path c xs)"

text \<open>
  What a path from a node leads to: the accept flag and combo name of the node it reaches,
  \<open>None\<close> when the path leaves the trie.
\<close>

fun label_at :: "StateNode \<Rightarrow> string list \<Rightarrow> (bool \<times> string option) option" where
  "label_at n [] = Some (is_accept n, combo_name n)"
| "label_at n (x # xs) =
     (case StateNode_get_next_state n x of None \<Rightarrow> None | Some c \<Rightarrow> label_at c xs)"

text \<open>The outer loop of \<open>build_from_combos\<close>, from a given root and counter.\<close>

definition add_combos :: "StateNode \<times> nat \<Rightarrow> (string list \<times> string) list \<Rightarrow> StateNode \<times> nat" where
  "add_combos start combos =
     foldl (\<lambda>(r, counter) (sequence, nm). add_combo r sequence nm counter) start combos"

text \<open>The cursor and the consumed history agree, and the history is a path from the root.\<close>

definition csm_inv :: "ComboStateMachine \<Rightarrow> bool" where
  "csm_inv m = (current_path m = input_history m \<and> is_path (root m) (input_history m))"

section \<open>expression\_validator.py\<close>

datatype NotationType = INFIX | POSTFIX | PREFIX

text \<open>
  The entries of an execution trace are formatted strings in the source; the model keeps the
  values that are interpolated into them: a fixed text, the step of the infix validator
  (token, token kind, state before, state after, stack contents), or the step of the postfix
  and prefix validators (token, token kind, whether the entry carries the right-to-left mark,
  operand count, stack contents).
\<close>

datatype trace_entry =
  TraceText string
| InfixStep string string string string "string list"
| CountStep string string bool nat "string list"

record ValidationResult =
  is_valid :: bool
  result_notation :: NotationType
  message :: string
  execution_trace :: "trace_entry list"
  final_state :: string

text \<open>
  \<open>str.isspace\<close> and \<open>str.isdigit\<close> on the code points 0..255: the white space characters
  are 9..13, 28..32, 133 and 160; the digits are \<open>0\<close>..\<open>9\<close> and the superscripts 178, 179, 185.
\<close>

definition py_isspace :: "char \<Rightarrow> bool" where
  "py_isspace c =
     (let n = of_char c :: nat in (9 \<le> n \<and> n \<le> 13) \<or> (28 \<le> n \<and> n \<le> 32) \<or> n = 133 \<or> n = 160)"

definition py_isdigit :: "string \<Rightarrow> bool" where
  "py_isdigit s =
     (s \<noteq> [] \<and> (\<forall>c \<in> set s. c \<in> set ''0123456789'' \<or> of_char c \<in> {178, 179, 185 :: nat}))"

text \<open>\<open>str.split()\<close> without arguments: the maximal runs of characters that are not white space.\<close>

fun py_split_loop :: "string \<Rightarrow> string \<Rightarrow> string list" where
  "py_split_loop [] word = (if word \<noteq> [] then [word] else [])"
| "py_split_loop (c # cs) word =
     (if py_isspace c then (if word \<noteq> [] then word # py_split_loop cs [] else py_split_loop cs [])
      else py_split_loop cs (word @ [c]))"

definition py_split :: "string \<Rightarrow> string list" where
  "py_split s = py_split_loop s []"

definition py_strip :: "string \<Rightarrow> string" where
  "py_strip s = rev (dropWhile py_isspace (rev (dropWhile py_isspace s)))"

definition OPERATORS :: "string set" where
  "OPERATORS = {''+'', ''-'', ''*'', ''/''}"

definition DIGITS :: "char set" where
  "DIGITS = set ''0123456789''"

definition PARENTHESES :: "string set" where
  "PARENTHESES = {''('', '')''}"

fun tokenize_infix_loop :: "string \<Rightarrow> string list \<Rightarrow> string \<Rightarrow> string list" where
  "tokenize_infix_loop [] tokens current_number =
     (if current_number \<noteq> [] then tokens @ [current_number] else tokens)"
| "tokenize_infix_loop (c # cs) tokens current_number =
     (if c \<in> DIGITS then tokenize_infix_loop cs tokens (current_number @ [c])
      else
        (let tokens1 = (if current_number \<noteq> [] then tokens @ [current_number] else tokens)
         in if [c] \<in> OPERATORS then tokenize_infix_loop cs (tokens1 @ [[c]]) []
            else if [c] \<in> PARENTHESES then tokenize_infix_loop cs (tokens1 @ [[c]]) []
            else if py_isspace c then tokenize_infix_loop cs tokens1 []
            else tokenize_infix_loop cs (tokens1 @ [''INVALID:'' @ [c]]) []))"

definition tokenize_infix :: "string \<Rightarrow> string list" where
  "tokenize_infix expression = tokenize_infix_loop expression [] []"

fun tokenize_postfix_loop :: "string list \<Rightarrow> string list \<Rightarrow> string list" where
  "tokenize_postfix_loop [] tokens = tokens"
| "tokenize_postfix_loop (word # rest) tokens =
     (let token = py_strip word
      in if token \<noteq> [] then
           (if token \<in> OPERATORS then tokenize_postfix_loop rest (tokens @ [token])
            else if py_isdigit token then tokenize_postfix_loop rest (tokens @ [token])
            else tokenize_postfix_loop rest (tokens @ [''INVALID:'' @ token]))
         else tokenize_postfix_loop rest tokens)"

definition tokenize_postfix :: "string \<Rightarrow> string list" where
  "tokenize_postfix expression = tokenize_postfix_loop (py_split expression) []"

definition tokenize_prefix :: "string \<Rightarrow> string list" where
  "tokenize_prefix expression = tokenize_postfix expression"

definition classify_token :: "string \<Rightarrow> string" where
  "classify_token token =
     (if startswith token ''INVALID:'' then ''INVALID''
      else if token \<in> OPERATORS then ''OPERATOR''
      else if token = ''('' then ''LPAREN''
      else if token = '')'' then ''RPAREN''
      else if py_isdigit token then ''OPERAND''
      else ''INVALID'')"

text \<open>Python's \<open>str\<close> of a non-negative integer, as the f-strings print the operand count.\<close>

function str_nat :: "nat \<Rightarrow> string" where
  "str_nat n =
     (if n < 10 then [''0123456789'' ! n]
      else str_nat (n div 10) @ [''0123456789'' ! (n mod 10)])"
  by pat_completeness auto
termination
  by (relation "measure id") auto

declare str_nat.simps [simp del]

subsection \<open>InfixValidator\<close>

definition InfixValidator_build_pda :: "py_error + PushdownAutomata" where
  "InfixValidator_build_pda =
     (let p = PDA_init ''Infix Validator PDA'';
          p = PDA_add_state p ''q_start'' INITIAL
                (''Initial state - expecting operand or '('' @ [CHR 0x27]);
          p = PDA_add_state p ''q_expect_operand'' NORMAL
                (''Expecting an operand (number) or '('' @ [CHR 0x27]);
          p = PDA_add_state p ''q_expect_operator'' NORMAL
                ''Expecting an operator or ')' or end'';
          p = PDA_add_state p ''q_accept'' ACCEPTING ''Expression accepted'';
          p = PDA_add_state p ''q_error'' ERROR ''Invalid expression''
      in bind_err (PDA_add_transition p ''q_start'' ''q_expect_operator''
                     (Some ''OPERAND'') None ''none'' ''Read operand, expect operator next'')
        (\<lambda>p. bind_err (PDA_add_transition p ''q_start'' ''q_expect_operand''
                     (Some ''LPAREN'') None ''push:('' ''Read '(', push to stack, expect operand'')
        (\<lambda>p. bind_err (PDA_add_transition p ''q_expect_operand'' ''q_expect_operator''
                     (Some ''OPERAND'') None ''none'' ''Read operand, expect operator next'')
        (\<lambda>p. bind_err (PDA_add_transition p ''q_expect_operand'' ''q_expect_operand''
                     (Some ''LPAREN'') None ''push:(''
                     ''Read '(', push to stack, still expect operand'')
        (\<lambda>p. bind_err (PDA_add_transition p ''q_expect_operator'' ''q_expect_operand''
                     (Some ''OPERATOR'') None ''none'' ''Read operator, expect operand next'')
        (\<lambda>p. PDA_add_transition p ''q_expect_operator'' ''q_expect_operator''
                     (Some ''RPAREN'') (Some ''('') ''pop''
                     ''Read ')', pop matching '(' from stack''))))))"

text \<open>
  The loop of \<open>InfixValidator.validate\<close> over the tokens: \<open>Inl\<close> of the result returned from
  inside the loop, or \<open>Inr\<close> of the automaton and the trace after the last token. Reading
  \<open>.name\<close> of a missing state raises \<open>AttributeError\<close>. A failed \<open>step\<close> always carries a
  message, which becomes the message of the result.
\<close>

fun infix_validate_loop ::
  "PushdownAutomata \<Rightarrow> string list \<Rightarrow> trace_entry list
     \<Rightarrow> py_error + ((ValidationResult \<times> PushdownAutomata) + (PushdownAutomata \<times> trace_entry list))"
  where
  "infix_validate_loop p [] trace = Inr (Inr (p, trace))"
| "infix_validate_loop p (token # rest) trace =
     (let token_type = classify_token token
      in if token_type = ''INVALID'' then
           Inr (Inl (\<lparr>is_valid = False, result_notation = INFIX,
                       message = ''Invalid token: '' @ token,
                       execution_trace = trace, final_state = ''q_error''\<rparr>, p))
         else
           (let config_before = PDA_get_current_configuration p
            in case PDA_step p token_type of
                 Inl e \<Rightarrow> Inl e
               | Inr ((success, error), p1) \<Rightarrow>
                   (case (cfg_state config_before, current_state p1) of
                      (Some state_before, Some state_after) \<Rightarrow>
                        (let trace1 = trace @ [InfixStep token token_type (name state_before) (name state_after)
                                                 (PDAStack_get_contents (stack p1))]
                         in if \<not> success then
                              Inr (Inl (\<lparr>is_valid = False, result_notation = INFIX,
                                          message = (case error of Some e \<Rightarrow> e | None \<Rightarrow> []),
                                          execution_trace = trace1,
                                          final_state = name state_after\<rparr>, p1))
                            else infix_validate_loop p1 rest trace1)
                    | _ \<Rightarrow> Inl AttributeError)))"

definition InfixValidator_validate ::
  "PushdownAutomata \<Rightarrow> string \<Rightarrow> py_error + (ValidationResult \<times> PushdownAutomata)" where
  "InfixValidator_validate pda expression =
     (let p = PDA_reset pda;
          tokens = tokenize_infix expression
      in if tokens = [] then
           Inr (\<lparr>is_valid = False, result_notation = INFIX, message = ''Empty expression'',
                  execution_trace = [TraceText ''No tokens to process''],
                  final_state = ''q_error''\<rparr>, p)
         else
           (case infix_validate_loop p tokens [] of
              Inl e \<Rightarrow> Inl e
            | Inr (Inl early) \<Rightarrow> Inr early
            | Inr (Inr (p1, trace)) \<Rightarrow>
                (case current_state p1 of
                   None \<Rightarrow> Inl AttributeError
                 | Some cur \<Rightarrow>
                     (let fstate = name cur;
                          stack_empty = PDAStack_is_empty (stack p1)
                      in if fstate = ''q_expect_operator'' \<and> stack_empty then
                           Inr (\<lparr>is_valid = True, result_notation = INFIX,
                                  message = ''Valid infix expression'',
                                  execution_trace = trace, final_state = fstate\<rparr>, p1)
                         else if \<not> stack_empty then
                           Inr (\<lparr>is_valid = False, result_notation = INFIX,
                                  message = ''Unmatched opening parenthesis'',
                                  execution_trace = trace, final_state = fstate\<rparr>, p1)
                         else
                           Inr (\<lparr>is_valid = False, result_notation = INFIX,
                                  message = ''Expression incomplete - ended in state '' @ fstate,
                                  execution_trace = trace, final_state = fstate\<rparr>, p1)))))"

definition validate_infix :: "string \<Rightarrow> py_error + ValidationResult" where
  "validate_infix expression =
     bind_err InfixValidator_build_pda
       (\<lambda>pda. bind_err (InfixValidator_validate pda expression) (\<lambda>(r, p). Inr r))"

subsection \<open>PostfixValidator\<close>

definition PostfixValidator_build_pda :: "py_error + PushdownAutomata" where
  "PostfixValidator_build_pda =
     (let p = PDA_init ''Postfix Validator PDA'';
          p = PDA_add_state p ''q_start'' INITIAL ''Initial state - expecting first token'';
          p = PDA_add_state p ''q_processing'' NORMAL ''Processing tokens'';
          p = PDA_add_state p ''q_accept'' ACCEPTING ''Expression accepted'';
          p = PDA_add_state p ''q_error'' ERROR ''Invalid expression''
      in bind_err (PDA_add_transition p ''q_start'' ''q_processing''
                     (Some ''OPERAND'') None ''push:X'' ''Read first operand, push marker'')
        (\<lambda>p. PDA_add_transition p ''q_processing'' ''q_processing''
                     (Some ''OPERAND'') None ''push:X'' ''Read operand, push marker''))"

text \<open>
  The loop of \<open>PostfixValidator.validate\<close> with its \<open>operand_count\<close>: \<open>Inl\<close> of the result
  returned from inside the loop, or \<open>Inr\<close> of the count, the automaton and the trace after the
  last token. (The source also computes \<open>state_before\<close> from the index and never reads it.)
\<close>

fun postfix_validate_loop ::
  "PushdownAutomata \<Rightarrow> string list \<Rightarrow> nat \<Rightarrow> trace_entry list
     \<Rightarrow> (ValidationResult \<times> PushdownAutomata) + (nat \<times> PushdownAutomata \<times> trace_entry list)"
  where
  "postfix_validate_loop p [] operand_count trace = Inr (operand_count, p, trace)"
| "postfix_validate_loop p (token # rest) operand_count trace =
     (let token_type = classify_token token
      in if token_type = ''INVALID'' then
           Inl (\<lparr>is_valid = False, result_notation = POSTFIX,
                  message = ''Invalid token: '' @ token,
                  execution_trace = trace, final_state = ''q_error''\<rparr>, p)
         else if token_type = ''LPAREN'' \<or> token_type = ''RPAREN'' then
           Inl (\<lparr>is_valid = False, result_notation = POSTFIX,
                  message = ''Parentheses not allowed in postfix notation'',
                  execution_trace = trace, final_state = ''q_error''\<rparr>, p)
         else if token_type = ''OPERAND'' then
           (let count1 = operand_count + 1;
                p1 = p\<lparr>stack := PDAStack_push (stack p) ''X''\<rparr>;
                trace_entry = CountStep token ''OPERAND'' False count1
                                (PDAStack_get_contents (stack p1))
            in postfix_validate_loop p1 rest count1 (trace @ [trace_entry]))
         else if operand_count < 2 then
           Inl (\<lparr>is_valid = False, result_notation = POSTFIX,
                  message = ''Not enough operands for operator '' @ [CHR 0x27] @ token
                            @ [CHR 0x27],
                  execution_trace = trace, final_state = ''q_error''\<rparr>, p)
         else
           (let count1 = operand_count - 1;
                p1 = p\<lparr>stack := snd (PDAStack_pop (stack p))\<rparr>;
                trace_entry = CountStep token ''OPERATOR'' False count1
                                (PDAStack_get_contents (stack p1))
            in postfix_validate_loop p1 rest count1 (trace @ [trace_entry])))"

text \<open>
  \<open>PostfixValidator.validate\<close> is the reset and the tokenization followed by
  \<open>PostfixValidator_validate_tokens\<close>, the rest of the method's body on the token list.
\<close>

definition PostfixValidator_validate_tokens ::
  "PushdownAutomata \<Rightarrow> string list \<Rightarrow> ValidationResult \<times> PushdownAutomata" where
  "PostfixValidator_validate_tokens p tokens =
     (if tokens = [] then
        (\<lparr>is_valid = False, result_notation = POSTFIX, message = ''Empty expression'',
          execution_trace = [TraceText ''No tokens to process''],
          final_state = ''q_error''\<rparr>, p)
      else
        (case postfix_validate_loop p tokens 0 [] of
           Inl early \<Rightarrow> early
         | Inr (operand_count, p1, trace) \<Rightarrow>
             if operand_count = 1 then
               (\<lparr>is_valid = True, result_notation = POSTFIX,
                 message = ''Valid postfix expression'',
                 execution_trace = trace, final_state = ''q_accept''\<rparr>, p1)
             else if operand_count > 1 then
               (\<lparr>is_valid = False, result_notation = POSTFIX,
                 message = ''Too many operands ('' @ str_nat operand_count
                           @ '') - missing operators'',
                 execution_trace = trace, final_state = ''q_error''\<rparr>, p1)
             else
               (\<lparr>is_valid = False, result_notation = POSTFIX,
                 message = ''No result - expression is incomplete'',
                 execution_trace = trace, final_state = ''q_error''\<rparr>, p1)))"

definition PostfixValidator_validate ::
  "PushdownAutomata \<Rightarrow> string \<Rightarrow> ValidationResult \<times> PushdownAutomata" where
  "PostfixValidator_validate pda expression =
     PostfixValidator_validate_tokens (PDA_reset pda) (tokenize_postfix expression)"

definition validate_postfix :: "string \<Rightarrow> py_error + ValidationResult" where
  "validate_postfix expression =
     bind_err PostfixValidator_build_pda
       (\<lambda>pda. Inr (fst (PostfixValidator_validate pda expression)))"

subsection \<open>PrefixValidator\<close>

definition PrefixValidator_build_pda :: PushdownAutomata where
  "PrefixValidator_build_pda =
     (let p = PDA_init ''Prefix Validator PDA'';
          p = PDA_add_state p ''q_start'' INITIAL ''Initial state - process from right'';
          p = PDA_add_state p ''q_processing'' NORMAL ''Processing tokens right-to-left'';
          p = PDA_add_state p ''q_accept'' ACCEPTING ''Expression accepted'';
          p = PDA_add_state p ''q_error'' ERROR ''Invalid expression''
      in p)"

fun prefix_validate_loop ::
  "PushdownAutomata \<Rightarrow> string list \<Rightarrow> nat \<Rightarrow> trace_entry list
     \<Rightarrow> (ValidationResult \<times> PushdownAutomata) + (nat \<times> PushdownAutomata \<times> trace_entry list)"
  where
  "prefix_validate_loop p [] operand_count trace = Inr (operand_count, p, trace)"
| "prefix_validate_loop p (token # rest) operand_count trace =
     (let token_type = classify_token token
      in if token_type = ''INVALID'' then
           Inl (\<lparr>is_valid = False, result_notation = PREFIX,
                  message = ''Invalid token: '' @ token,
                  execution_trace = trace, final_state = ''q_error''\<rparr>, p)
         else if token_type = ''LPAREN'' \<or> token_type = ''RPAREN'' then
           Inl (\<lparr>is_valid = False, result_notation = PREFIX,
                  message = ''Parentheses not allowed in prefix notation'',
                  execution_trace = trace, final_state = ''q_error''\<rparr>, p)
         else if token_type = ''OPERAND'' then
           (let count1 = operand_count + 1;
                p1 = p\<lparr>stack := PDAStack_push (stack p) ''X''\<rparr>;
                trace_entry = CountStep token ''OPERAND'' True count1
                                (PDAStack_get_contents (stack p1))
            in prefix_validate_loop p1 rest count1 (trace @ [trace_entry]))
         else if operand_count < 2 then
           Inl (\<lparr>is_valid = False, result_notation = PREFIX,
                  message = ''Not enough operands for operator '' @ [CHR 0x27] @ token
                            @ [CHR 0x27],
                  execution_trace = trace, final_state = ''q_error''\<rparr>, p)
         else
           (let count1 = operand_count - 1;
                p1 = p\<lparr>stack := snd (PDAStack_pop (stack p))\<rparr>;
                trace_entry = CountStep token ''OPERATOR'' True count1
                                (PDAStack_get_contents (stack p1))
            in prefix_validate_loop p1 rest count1 (trace @ [trace_entry])))"

definition PrefixValidator_validate ::
  "PushdownAutomata \<Rightarrow> string \<Rightarrow> ValidationResult \<times> PushdownAutomata" where
  "PrefixValidator_validate pda expression =
     (let p = PDA_reset pda;
          tokens = tokenize_prefix expression
      in if tokens = [] then
           (\<lparr>is_valid = False, result_notation = PREFIX, message = ''Empty expression'',
             execution_trace = [TraceText ''No tokens to process''],
             final_state = ''q_error''\<rparr>, p)
         else
           (let tokens = rev tokens
            in case prefix_validate_loop p tokens 0 [] of
                 Inl early \<Rightarrow> early
               | Inr (operand_count, p1, trace) \<Rightarrow>
                   if operand_count = 1 then
                     (\<lparr>is_valid = True, result_notation = PREFIX,
                       message = ''Valid prefix expression'',
                       execution_trace = trace, final_state = ''q_accept''\<rparr>, p1)
                   else if operand_count > 1 then
                     (\<lparr>is_valid = False, result_notation = PREFIX,
                       message = ''Too many operands ('' @ str_nat operand_count
                                 @ '') - missing operators'',
                       execution_trace = trace, final_state = ''q_error''\<rparr>, p1)
                   else
                     (\<lparr>is_valid = False, result_notation = PREFIX,
                       message = ''No result - expression is incomplete'',
                       execution_trace = trace, final_state = ''q_error''\<rparr>, p1)))"

definition validate_prefix :: "string \<Rightarrow> ValidationResult" where
  "validate_prefix expression = fst (PrefixValidator_validate PrefixValidator_build_pda expression)"

text \<open>
  The operand-counting discipline in the words of the specification: every operand adds one
  to the counter, every other token (an operator) needs a counter of at least 2 and takes one
  off. \<open>Inl token\<close> is the operator at which the counter was too small, \<open>Inr c\<close> the
  counter at the end of the input.
\<close>

fun operand_counter :: "string list \<Rightarrow> nat \<Rightarrow> string + nat" where
  "operand_counter [] c = Inr c"
| "operand_counter (token # rest) c =
     (if classify_token token = ''OPERAND'' then operand_counter rest (c + 1)
      else if c < 2 then Inl token
      else operand_counter rest (c - 1))"

text \<open>
  The messages of the postfix validator in the wording of the prefix validator: the two
  messages that name the notation name the other one, every other message is the same.
\<close>

definition prefix_wording :: "string \<Rightarrow> string" where
  "prefix_wording m =
     (if m = ''Valid postfix expression'' then ''Valid prefix expression''
      else if m = ''Parentheses not allowed in postfix notation''
           then ''Parentheses not allowed in prefix notation''
      else m)"

text \<open>
  A result of the postfix validator rewritten as the prefix validator reports it: the
  notation tag, the wording of the message and the right-to-left mark of the trace entries.
\<close>

fun mark_rtl :: "trace_entry \<Rightarrow> trace_entry" where
  "mark_rtl (CountStep t k b n s) = CountStep t k True n s"
| "mark_rtl e = e"

definition to_prefix_result :: "ValidationResult \<Rightarrow> ValidationResult" where
  "to_prefix_result r =
     r\<lparr>result_notation := PREFIX, message := prefix_wording (message r),
       execution_trace := map mark_rtl (execution_trace r)\<rparr>"

section \<open>expression\_converter.py\<close>

text \<open>
  The entries of \<open>steps\<close> are formatted strings in the source; the model keeps a label, the
  strings and the lists that are interpolated into them.
\<close>

datatype conversion_step = StepText string | Step string "string list" "string list list"

record ConversionResult =
  success :: bool
  source_notation :: NotationType
  target_notation :: NotationType
  source_expression :: string
  result_expression :: string
  steps :: "conversion_step list"
  error_message :: string

definition get_precedence :: "string \<Rightarrow> nat" where
  "get_precedence operator =
     (if operator = ''+'' then 1 else if operator = ''-'' then 1
      else if operator = ''*'' then 2 else if operator = ''/'' then 2 else 0)"

definition is_left_associative :: "string \<Rightarrow> bool" where
  "is_left_associative operator = True"

definition is_operator :: "string \<Rightarrow> bool" where
  "is_operator token = (token \<in> {''+'', ''-'', ''*'', ''/''})"

definition is_operand :: "string \<Rightarrow> bool" where
  "is_operand token = py_isdigit token"

text \<open>\<open>' '.join(output)\<close>.\<close>

fun join_space :: "string list \<Rightarrow> string" where
  "join_space [] = []"
| "join_space [x] = x"
| "join_space (x # y # ys) = x @ '' '' @ join_space (y # ys)"

text \<open>
  The operator stack and the value stack of the converter are lists with the top of the
  stack first (Python appends and pops at the end of its list); where a step records a stack
  it records it in Python's order. The three \<open>while\<close> loops of \<open>infix_to_postfix\<close> that pop
  from the operator stack to the output return the stack and the output after the loop.
\<close>

fun pop_operators :: "string \<Rightarrow> string list \<Rightarrow> string list \<Rightarrow> string list \<times> string list" where
  "pop_operators token [] output = ([], output)"
| "pop_operators token (t # operator_stack) output =
     (if t \<noteq> ''('' \<and> is_operator t \<and>
         (get_precedence t > get_precedence token \<or>
          (get_precedence t = get_precedence token \<and> is_left_associative token))
      then pop_operators token operator_stack (output @ [t])
      else (t # operator_stack, output))"

fun pop_to_lparen :: "string list \<Rightarrow> string list \<Rightarrow> string list \<times> string list" where
  "pop_to_lparen [] output = ([], output)"
| "pop_to_lparen (t # operator_stack) output =
     (if t \<noteq> ''('' then pop_to_lparen operator_stack (output @ [t])
      else (t # operator_stack, output))"

fun pop_remaining :: "string list \<Rightarrow> string list \<Rightarrow> string list" where
  "pop_remaining [] output = output"
| "pop_remaining (t # operator_stack) output = pop_remaining operator_stack (output @ [t])"

fun infix_to_postfix_loop ::
  "string list \<Rightarrow> string list \<Rightarrow> string list \<Rightarrow> conversion_step list
     \<Rightarrow> string list \<times> string list \<times> conversion_step list" where
  "infix_to_postfix_loop [] output operator_stack stps = (output, operator_stack, stps)"
| "infix_to_postfix_loop (token # rest) output operator_stack stps =
     (if is_operand token then
        (let output1 = output @ [token]
         in infix_to_postfix_loop rest output1 operator_stack
              (stps @ [Step ''Operand'' [token] [output1, rev operator_stack]]))
      else if is_operator token then
        (let (stack1, output1) = pop_operators token operator_stack output;
             stack2 = token # stack1
         in infix_to_postfix_loop rest output1 stack2
              (stps @ [Step ''Operator'' [token] [output1, rev stack2]]))
      else if token = ''('' then
        (let stack1 = token # operator_stack
         in infix_to_postfix_loop rest output stack1
              (stps @ [Step ''('' [] [output, rev stack1]]))
      else if token = '')'' then
        (let (stack1, output1) = pop_to_lparen operator_stack output;
             stack2 = (if stack1 \<noteq> [] then tl stack1 else stack1)
         in infix_to_postfix_loop rest output1 stack2
              (stps @ [Step '')'' [] [output1, rev stack2]]))
      else infix_to_postfix_loop rest output operator_stack stps)"

definition ExpressionConverter_infix_to_postfix :: "string \<Rightarrow> py_error + ConversionResult" where
  "ExpressionConverter_infix_to_postfix expression =
     bind_err (validate_infix expression)
       (\<lambda>validation.
          if \<not> is_valid validation then
            Inr \<lparr>success = False, source_notation = INFIX, target_notation = POSTFIX,
                 source_expression = expression, result_expression = [],
                 steps = [StepText (''Validation failed: '' @ message validation)],
                 error_message = message validation\<rparr>
          else
            (let tokens = tokenize_infix expression;
                 (output, operator_stack, stps) =
                   infix_to_postfix_loop tokens [] [] [Step ''Input tokens'' [] [tokens]];
                 output1 = pop_remaining operator_stack output;
                 result = join_space output1
             in Inr \<lparr>success = True, source_notation = INFIX, target_notation = POSTFIX,
                      source_expression = expression, result_expression = result,
                      steps = stps @ [Step ''Final result'' [result] []],
                      error_message = []\<rparr>))"

text \<open>
  The loop of \<open>postfix_to_infix\<close>: \<open>Inl\<close> of the steps when an operator finds fewer than two
  values (the method returns its failure from inside the loop), \<open>Inr\<close> of the value stack and
  the steps after the last token.
\<close>

fun postfix_to_infix_loop ::
  "string list \<Rightarrow> string list \<Rightarrow> conversion_step list
     \<Rightarrow> conversion_step list + (string list \<times> conversion_step list)" where
  "postfix_to_infix_loop [] stk stps = Inr (stk, stps)"
| "postfix_to_infix_loop (token # rest) stk stps =
     (if is_operand token then
        (let stk1 = token # stk
         in postfix_to_infix_loop rest stk1 (stps @ [Step ''Push operand'' [token] [rev stk1]]))
      else if is_operator token then
        (case stk of
           operand2 # operand1 # stk0 \<Rightarrow>
             (let result_expr = ''('' @ operand1 @ token @ operand2 @ '')'';
                  stk1 = result_expr # stk0
              in postfix_to_infix_loop rest stk1
                   (stps @ [Step ''Apply'' [token, operand1, operand2, result_expr] [rev stk1]]))
         | _ \<Rightarrow> Inl stps)
      else postfix_to_infix_loop rest stk stps)"

definition ExpressionConverter_postfix_to_infix :: "string \<Rightarrow> py_error + ConversionResult" where
  "ExpressionConverter_postfix_to_infix expression =
     bind_err (validate_postfix expression)
       (\<lambda>validation.
          if \<not> is_valid validation then
            Inr \<lparr>success = False, source_notation = POSTFIX, target_notation = INFIX,
                 source_expression = expression, result_expression = [],
                 steps = [StepText (''Validation failed: '' @ message validation)],
                 error_message = message validation\<rparr>
          else
            (let tokens = tokenize_postfix expression
             in case postfix_to_infix_loop tokens [] [Step ''Input tokens'' [] [tokens]] of
                  Inl stps \<Rightarrow>
                    Inr \<lparr>success = False, source_notation = POSTFIX, target_notation = INFIX,
                         source_expression = expression, result_expression = [],
                         steps = stps, error_message = ''Not enough operands for operator''\<rparr>
                | Inr (stk, stps) \<Rightarrow>
                    if length stk \<noteq> 1 then
                      Inr \<lparr>success = False, source_notation = POSTFIX, target_notation = INFIX,
                           source_expression = expression, result_expression = [],
                           steps = stps,
                           error_message =
                             ''Invalid expression - stack should have exactly one element''\<rparr>
                    else
                      (let result = last stk
                       in Inr \<lparr>success = True, source_notation = POSTFIX,
                                target_notation = INFIX, source_expression = expression,
                                result_expression = result,
                                steps = stps @ [Step ''Final result'' [result] []],
                                error_message = []\<rparr>)))"

text \<open>The module-level convenience functions: the result expression, or the empty string.\<close>

definition infix_to_postfix :: "string \<Rightarrow> py_error + string" where
  "infix_to_postfix expression =
     bind_err (ExpressionConverter_infix_to_postfix expression)
       (\<lambda>result. Inr (if success result then result_expression result else []))"

definition postfix_to_infix :: "string \<Rightarrow> py_error + string" where
  "postfix_to_infix expression =
     bind_err (ExpressionConverter_postfix_to_infix expression)
       (\<lambda>result. Inr (if success result then result_expression result else []))"

text \<open>
  Expressions as trees, for the proofs about the converter: the postfix token list of a
  tree, the fully parenthesized infix string that \<open>postfix_to_infix\<close> builds for it, and the
  tokens of that string.
\<close>

datatype expr = Num string | Bin expr string expr

fun postfix_of :: "expr \<Rightarrow> string list" where
  "postfix_of (Num d) = [d]"
| "postfix_of (Bin l operator r) = postfix_of l @ postfix_of r @ [operator]"

fun infix_of :: "expr \<Rightarrow> string" where
  "infix_of (Num d) = d"
| "infix_of (Bin l operator r) = ''('' @ infix_of l @ operator @ infix_of r @ '')''"

fun infix_tokens_of :: "expr \<Rightarrow> string list" where
  "infix_tokens_of (Num d) = [d]"
| "infix_tokens_of (Bin l operator r) =
     ''('' # infix_tokens_of l @ [operator] @ infix_tokens_of r @ ['')'']"

definition single_digit :: "string \<Rightarrow> bool" where
  "single_digit token = (length token = 1 \<and> set token \<subseteq> DIGITS)"

fun wf_expr :: "expr \<Rightarrow> bool" where
  "wf_expr (Num d) = single_digit d"
| "wf_expr (Bin l operator r) = (wf_expr l \<and> operator \<in> OPERATORS \<and> wf_expr r)"

text \<open>Reading a postfix token list into trees, on a stack of trees with its top first.\<close>

fun parse_postfix :: "string list \<Rightarrow> expr list \<Rightarrow> expr list option" where
  "parse_postfix [] st = Some st"
| "parse_postfix (token # rest) st =
     (if classify_token token = ''OPERAND'' then parse_postfix rest (Num token # st)
      else (case st of
              r # l # st0 \<Rightarrow> parse_postfix rest (Bin l token r # st0)
            | _ \<Rightarrow> None))"

section \<open>Verified properties\<close>

subsection \<open>The stack and a single step\<close>


lemma stack_inv_init: "stack_inv (PDAStack_init z)"
  by (simp add: stack_inv_def PDAStack_init_def)

lemma stack_inv_push: "stack_inv s \<Longrightarrow> stack_inv (PDAStack_push s x)"
  by (simp add: stack_inv_def PDAStack_push_def Let_def)

lemma hd_butlast: "1 < length xs \<Longrightarrow> hd (butlast xs) = hd xs"
  by (cases xs) auto

lemma butlast_nonempty: "1 < length xs \<Longrightarrow> butlast xs \<noteq> []"
  by (cases xs) auto

lemma stack_inv_pop: "stack_inv s \<Longrightarrow> stack_inv (snd (PDAStack_pop s))"
  by (simp add: stack_inv_def PDAStack_pop_def Let_def hd_butlast butlast_nonempty)

lemma stack_inv_clear: "stack_inv (PDAStack_clear s)"
  by (simp add: stack_inv_def PDAStack_clear_def)

lemma stack_inv_op: "stack_inv s \<Longrightarrow> stack_inv (apply_stack_op s op)"
  by (cases op) (simp_all add: stack_inv_push stack_inv_pop stack_inv_clear)

lemma initial_symbol_op: "initial_symbol (apply_stack_op s op) = initial_symbol s"
  by (cases op) (simp_all add: PDAStack_push_def PDAStack_pop_def PDAStack_clear_def Let_def)

lemma stack_inv_foldl: "stack_inv s \<Longrightarrow> stack_inv (foldl apply_stack_op s ops)"
  by (induction ops arbitrary: s) (simp_all add: stack_inv_op)

lemma initial_symbol_foldl: "initial_symbol (foldl apply_stack_op s ops) = initial_symbol s"
  by (induction ops arbitrary: s) (simp_all add: initial_symbol_op)

lemma is_empty_iff: "stack_inv s \<Longrightarrow> PDAStack_is_empty s \<longleftrightarrow> stack_list s = [initial_symbol s]"
  by (cases "stack_list s") (auto simp: stack_inv_def PDAStack_is_empty_def)

lemma pop_empty: "PDAStack_is_empty s \<Longrightarrow> PDAStack_pop s = (None, s)"
  by (simp add: PDAStack_is_empty_def PDAStack_pop_def)

lemma find_transition_history:
  "PDA_find_transition (p\<lparr>execution_history := h\<rparr>) i = PDA_find_transition p i"
  by (simp add: PDA_find_transition_def Let_def split: option.splits)

lemma goto_error_stack: "stack (PDA_goto_error p) = stack p"
  by (simp add: PDA_goto_error_def split: option.splits)

lemma step_failed_pop:
  assumes "PDA_find_transition p (Some i) = Some t" "stack_action t = ''pop''"
    "PDAStack_is_empty (stack p)"
  shows "\<exists>p2. PDA_step p i = Inr ((False, Some ''Stack action 'pop' failed''), p2)
            \<and> stack p2 = stack p"
  using assms
  by (simp add: PDA_step_def Let_def find_transition_history PDA_execute_stack_action_def
      startswith_def pop_empty goto_error_stack)


lemma goto_error_current: "current_state p \<noteq> None \<Longrightarrow> current_state (PDA_goto_error p) \<noteq> None"
  by (simp add: PDA_goto_error_def split: option.splits)

lemma exec_action_current:
  "current_state (snd (PDA_execute_stack_action p a)) = current_state p"
  by (simp add: PDA_execute_stack_action_def Let_def split: prod.splits)

lemma step_total:
  assumes "current_state p \<noteq> None"
  shows "\<exists>r p'. PDA_step p i = Inr (r, p') \<and> current_state p' \<noteq> None"
proof (cases "PDA_find_transition (p\<lparr>execution_history := execution_history p @
        [\<lparr>cfg_state = current_state p, remaining_input = i,
          stack_contents = PDAStack_get_contents (stack p)\<rparr>]\<rparr>) (Some i)")
  case None
  with assms show ?thesis
    by (auto simp: PDA_step_def Let_def PDA_goto_error_def split: option.splits)
next
  case (Some t)
  obtain ok p2 where e: "PDA_execute_stack_action (p\<lparr>execution_history := execution_history p @
        [\<lparr>cfg_state = current_state p, remaining_input = i,
          stack_contents = PDAStack_get_contents (stack p)\<rparr>]\<rparr>) (stack_action t) = (ok, p2)"
    by (cases "PDA_execute_stack_action (p\<lparr>execution_history := execution_history p @
        [\<lparr>cfg_state = current_state p, remaining_input = i,
          stack_contents = PDAStack_get_contents (stack p)\<rparr>]\<rparr>) (stack_action t)") auto
  have "current_state p2 = current_state p"
    using exec_action_current[of "p\<lparr>execution_history := execution_history p @
        [\<lparr>cfg_state = current_state p, remaining_input = i,
          stack_contents = PDAStack_get_contents (stack p)\<rparr>]\<rparr>" "stack_action t"] e by simp
  with assms Some e goto_error_current[of p2] show ?thesis
    by (auto simp: PDA_step_def Let_def)
qed

lemma loop_total:
  "current_state p \<noteq> None \<Longrightarrow>
   (\<exists>m h p'. PDA_process_loop p syms = Inr (Inl ((False, m, h), p')))
   \<or> (\<exists>p'. PDA_process_loop p syms = Inr (Inr p') \<and> current_state p' \<noteq> None)"
proof (induction syms arbitrary: p)
  case Nil
  then show ?case by simp
next
  case (Cons x xs)
  from step_total[OF Cons.prems, of x] obtain r p1
    where s: "PDA_step p x = Inr (r, p1)" and c: "current_state p1 \<noteq> None" by blast
  show ?case
  proof (cases "fst r")
    case True
    with s Cons.IH[OF c] show ?thesis by (cases r) auto
  next
    case False
    with s show ?thesis by (cases r) auto
  qed
qed

lemma loop_run: "PDA_run p syms = Some pf \<Longrightarrow> PDA_process_loop p syms = Inr (Inr pf)"
  by (induction syms arbitrary: p) (auto split: sum.splits if_splits prod.splits)

lemma run_loop: "PDA_process_loop p syms = Inr (Inr pf) \<Longrightarrow> PDA_run p syms = Some pf"
  by (induction syms arbitrary: p) (auto split: sum.splits if_splits prod.splits)

lemma loop_fail:
  "PDA_run p xs = Some p1 \<Longrightarrow> PDA_step p1 x = Inr ((False, err), p2) \<Longrightarrow>
   PDA_process_loop p (xs @ x # ys) = Inr (Inl ((False, err, execution_history p2), p2))"
  by (induction xs arbitrary: p) (auto split: sum.splits if_splits prod.splits)

lemma reset_current: "current_state (PDA_reset p) = initial_state p"
  by (simp add: PDA_reset_def)

lemmas pda_eval = demo_pda_def PDA_init_def PDAStack_init_def PDAStack_is_empty_def Let_def
      PDA_step_def PDA_find_transition_def PDAStack_peek_def PDATransition_matches_def
      PDAState_eq_def PDA_execute_stack_action_def startswith_def PDAStack_pop_def
      PDAStack_push_def PDAStack_get_contents_def PDA_goto_error_def PDA_reset_def
      PDAStack_clear_def PDA_process_def

text \<open>
  Claim C8. Whatever pushes, pops, replaces and clears are applied to a fresh stack, the
  bottom marker stays: the stack list is never empty and starts with the marker,
  \<open>is_empty\<close> holds exactly when the list is the marker alone, and \<open>pop\<close> then returns
  \<open>None\<close> and leaves the stack as it is. A \<open>step\<close> whose transition pops while the stack
  is empty fails, leaves the stack unchanged and \<open>is_empty\<close> true.
\<close>

theorem PDAStack_sentinel_never_removed:
  "(let s = foldl apply_stack_op (PDAStack_init z) ops
    in stack_list s \<noteq> [] \<and> hd (stack_list s) = z
       \<and> (PDAStack_is_empty s \<longleftrightarrow> stack_list s = [z])
       \<and> (PDAStack_is_empty s \<longrightarrow> PDAStack_pop s = (None, s)))
   \<and> (PDA_find_transition p (Some i) = Some t \<and> stack_action t = ''pop''
        \<and> PDAStack_is_empty (stack p) \<longrightarrow>
        (\<exists>p2. PDA_step p i = Inr ((False, Some ''Stack action 'pop' failed''), p2)
              \<and> stack p2 = stack p \<and> PDAStack_is_empty (stack p2)))"
proof -
  let ?s = "foldl apply_stack_op (PDAStack_init z) ops"
  have inv: "stack_inv ?s" by (rule stack_inv_foldl[OF stack_inv_init])
  have z: "initial_symbol ?s = z" by (simp add: initial_symbol_foldl PDAStack_init_def)
  from inv z have 1: "stack_list ?s \<noteq> []" "hd (stack_list ?s) = z"
    by (simp_all add: stack_inv_def)
  from is_empty_iff[OF inv] z have 2: "PDAStack_is_empty ?s \<longleftrightarrow> stack_list ?s = [z]" by simp
  have 3: "PDAStack_is_empty ?s \<longrightarrow> PDAStack_pop ?s = (None, ?s)" by (simp add: pop_empty)
  have 4: "PDA_find_transition p (Some i) = Some t \<and> stack_action t = ''pop''
        \<and> PDAStack_is_empty (stack p) \<longrightarrow>
        (\<exists>p2. PDA_step p i = Inr ((False, Some ''Stack action 'pop' failed''), p2)
              \<and> stack p2 = stack p \<and> PDAStack_is_empty (stack p2))"
    using step_failed_pop[of p i t] by auto
  from 1 2 3 4 show ?thesis by (simp add: Let_def)
qed

lemma demo_find: "PDA_find_transition (demo_pda ''pop'') (Some ''a'') =
   Some \<lparr>from_state = \<lparr>name = ''q0'', state_type = INITIAL, description = []\<rparr>,
         to_state = \<lparr>name = ''q1'', state_type = ACCEPTING, description = []\<rparr>,
         input_symbol = Some ''a'', stack_top = None,
         stack_action = ''pop'', t_description = []\<rparr>"
  by (simp add: demo_pda_def PDA_init_def PDAStack_init_def PDA_find_transition_def Let_def
      PDAStack_peek_def PDATransition_matches_def PDAState_eq_def)

theorem PDAStack_sentinel_never_removed_witness:
  "stack_list (foldl apply_stack_op (PDAStack_init ''Z0'') [Push ''X'', Pop, Pop, Replace ''Y'', Clear])
     = [''Z0'']
   \<and> PDAStack_is_empty (foldl apply_stack_op (PDAStack_init ''Z0'') [Push ''X'', Pop, Pop, Replace ''Y'', Clear])
   \<and> fst (PDAStack_pop (foldl apply_stack_op (PDAStack_init ''Z0'') [Push ''X'', Pop, Pop, Replace ''Y'', Clear])) = None
   \<and> PDAStack_is_empty (stack (demo_pda ''pop''))
   \<and> (\<exists>p2. PDA_step (demo_pda ''pop'') ''a'' = Inr ((False, Some ''Stack action 'pop' failed''), p2)
          \<and> PDAStack_is_empty (stack p2))"
proof -
  have e: "PDAStack_is_empty (foldl apply_stack_op (PDAStack_init ''Z0'') [Push ''X'', Pop, Pop, Replace ''Y'', Clear])"
    by (simp add: PDAStack_is_empty_def PDAStack_init_def PDAStack_push_def PDAStack_pop_def
        PDAStack_clear_def Let_def)
  have f: "PDAStack_is_empty (stack (demo_pda ''pop''))"
    by (simp add: demo_pda_def PDA_init_def PDAStack_init_def PDAStack_is_empty_def Let_def)
  show ?thesis
    using PDAStack_sentinel_never_removed[of "''Z0''" "[Push ''X'', Pop, Pop, Replace ''Y'', Clear]"
        "demo_pda ''pop''" "''a''"
        "\<lparr>from_state = \<lparr>name = ''q0'', state_type = INITIAL, description = []\<rparr>,
         to_state = \<lparr>name = ''q1'', state_type = ACCEPTING, description = []\<rparr>,
         input_symbol = Some ''a'', stack_top = None,
         stack_action = ''pop'', t_description = []\<rparr>"] e f demo_find
    by (auto simp: Let_def)
qed

text \<open>
  Claim C1. The claim says that a \<open>replace\<close> action on a stack holding only the bottom
  marker makes \<open>step\<close> fail as a \<open>pop\<close> does. In the code the result of the inner
  \<open>pop\<close> is dropped: on the demo automaton the step with \<open>replace:X\<close> succeeds, pushes
  \<open>X\<close> above the marker and moves to the target state, while the same step with \<open>pop\<close>
  fails.
\<close>

theorem replace_on_sentinel_only_stack_succeeds:
  "PDAStack_is_empty (stack (demo_pda ''replace:X''))
   \<and> map_sum id (\<lambda>(r, p'). (r, stack_list (stack p'), map_option name (current_state p')))
        (PDA_step (demo_pda ''replace:X'') ''a'')
      = Inr ((True, None), [''Z0'', ''X''], Some ''q1'')
   \<and> map_sum id fst (PDA_step (demo_pda ''pop'') ''a'')
      = Inr (False, Some ''Stack action 'pop' failed'')"
  by (simp add: demo_pda_def PDA_init_def PDAStack_init_def PDAStack_is_empty_def Let_def
      PDA_step_def PDA_find_transition_def PDAStack_peek_def PDATransition_matches_def
      PDAState_eq_def PDA_execute_stack_action_def startswith_def PDAStack_pop_def
      PDAStack_push_def PDAStack_get_contents_def PDA_goto_error_def)

text \<open>
  Claim C9. The claim says that the no-transition message names the state in which no
  transition matched. The code moves to \<open>q_error\<close> before it formats the message: in state
  \<open>q0\<close>, with no transition for \<open>b\<close>, the message names \<open>q_error\<close>.
\<close>

theorem no_transition_message_names_error_state:
  "map_option name (current_state (demo_pda ''none'')) = Some ''q0''
   \<and> map_sum id fst (PDA_step (demo_pda ''none'') ''b'')
      = Inr (False, Some (''No valid transition for input 'b' in state 'q_error'' @ [CHR 0x27]))"
  by (simp add: demo_pda_def PDA_init_def PDAStack_init_def Let_def
      PDA_step_def PDA_find_transition_def PDAStack_peek_def PDATransition_matches_def
      PDAState_eq_def PDAStack_get_contents_def PDA_goto_error_def)

subsection \<open>Processing a whole input\<close>


text \<open>
  Claim C3. For an automaton with an initial state, \<open>process\<close> always returns. If every step
  from the reset automaton succeeds, the verdict is decided by the kind of the state reached
  after the last symbol alone (accepting, error, or any other kind). If the step at some symbol
  fails, the result is that step's failure with its message and the automaton is the one that
  step left, whatever symbols follow. An accepting verdict implies that all symbols were
  stepped through and the last state is of kind accepting.
\<close>

theorem PDA_process_classifies_by_final_state:
  assumes "initial_state p \<noteq> None"
  shows "(\<exists>r. PDA_process p syms = Inr r)
       \<and> (\<forall>pf. PDA_run (PDA_reset p) syms = Some pf \<longrightarrow>
            (\<exists>cur. current_state pf = Some cur \<and>
               PDA_process p syms =
                 Inr ((state_type cur = ACCEPTING,
                       Some (if state_type cur = ACCEPTING then ''Input accepted''
                             else if state_type cur = ERROR then ''Ended in error state''
                             else ''Ended in non-accepting state '' @ [CHR 0x27] @ name cur
                                  @ [CHR 0x27]),
                       execution_history pf), pf)))
       \<and> (\<forall>xs x ys p1 err p2.
            syms = xs @ x # ys \<and> PDA_run (PDA_reset p) xs = Some p1 \<and>
            PDA_step p1 x = Inr ((False, err), p2) \<longrightarrow>
            PDA_process p syms = Inr ((False, err, execution_history p2), p2))
       \<and> (\<forall>m h pf. PDA_process p syms = Inr ((True, m, h), pf) \<longrightarrow>
            PDA_run (PDA_reset p) syms = Some pf \<and>
            (\<exists>cur. current_state pf = Some cur \<and> state_type cur = ACCEPTING))"
proof -
  have c: "current_state (PDA_reset p) \<noteq> None"
    using assms by (simp add: reset_current)
  have A: "\<exists>r. PDA_process p syms = Inr r"
    using loop_total[OF c, of syms]
    by (auto simp: PDA_process_def split: option.splits)
  have B: "\<exists>cur. current_state pf = Some cur \<and>
               PDA_process p syms =
                 Inr ((state_type cur = ACCEPTING,
                       Some (if state_type cur = ACCEPTING then ''Input accepted''
                             else if state_type cur = ERROR then ''Ended in error state''
                             else ''Ended in non-accepting state '' @ [CHR 0x27] @ name cur
                                  @ [CHR 0x27]),
                       execution_history pf), pf)"
    if r: "PDA_run (PDA_reset p) syms = Some pf" for pf
  proof -
    have l: "PDA_process_loop (PDA_reset p) syms = Inr (Inr pf)"
      using r by (rule loop_run)
    with loop_total[OF c, of syms] obtain cur where "current_state pf = Some cur" by auto
    with l show ?thesis by (simp add: PDA_process_def)
  qed
  have C: "PDA_process p syms = Inr ((False, err, execution_history p2), p2)"
    if "syms = xs @ x # ys" "PDA_run (PDA_reset p) xs = Some p1"
       "PDA_step p1 x = Inr ((False, err), p2)" for xs x ys p1 err p2
    using loop_fail[OF that(2) that(3), of ys] that(1) by (simp add: PDA_process_def)
  have D: "PDA_run (PDA_reset p) syms = Some pf \<and>
            (\<exists>cur. current_state pf = Some cur \<and> state_type cur = ACCEPTING)"
    if a: "PDA_process p syms = Inr ((True, m, h), pf)" for m h pf
  proof -
    from loop_total[OF c, of syms] a have l: "PDA_process_loop (PDA_reset p) syms = Inr (Inr pf)"
      by (auto simp: PDA_process_def split: option.splits if_splits)
    then have r: "PDA_run (PDA_reset p) syms = Some pf" by (rule run_loop)
    from a l have "\<exists>cur. current_state pf = Some cur \<and> state_type cur = ACCEPTING"
      by (auto simp: PDA_process_def split: option.splits if_splits)
    with r show ?thesis by simp
  qed
  from A B C D show ?thesis by blast
qed

theorem PDA_process_classifies_by_final_state_witness:
  "initial_state (demo_pda ''none'') \<noteq> None
   \<and> map_option (\<lambda>pf. map_option state_type (current_state pf))
        (PDA_run (PDA_reset (demo_pda ''none'')) [''a'']) = Some (Some ACCEPTING)
   \<and> map_option (\<lambda>pf. map_option name (current_state pf))
        (PDA_run (PDA_reset (demo_pda ''none'')) [''a'', ''b'']) = Some (Some ''q0'')
   \<and> map_sum id (\<lambda>(r, pf). (fst r, fst (snd r))) (PDA_process (demo_pda ''none'') [''a'', ''b''])
       = Inr (False, Some (''Ended in non-accepting state 'q0'' @ [CHR 0x27]))
   \<and> map_sum id (\<lambda>(r, pf). (fst r, fst (snd r))) (PDA_process (demo_pda ''none'') [''a''])
       = Inr (True, Some ''Input accepted'')
   \<and> map_sum id (\<lambda>(r, pf). (fst r, fst (snd r))) (PDA_process (demo_pda ''none'') [''b'', ''a''])
       = Inr (False, Some (''No valid transition for input 'b' in state 'q_error'' @ [CHR 0x27]))"
  using PDA_process_classifies_by_final_state[of "demo_pda ''none''" "[''a'', ''b'']"]
    PDA_process_classifies_by_final_state[of "demo_pda ''none''" "[''a'']"]
    PDA_process_classifies_by_final_state[of "demo_pda ''none''" "[''b'', ''a'']"]
  by (simp add: pda_eval)

subsection \<open>The trie matcher\<close>

lemma label_at_path: "label_at n p \<noteq> None \<longleftrightarrow> is_path n p"
  by (induction p arbitrary: n) (auto split: option.splits)

lemma label_at_node:
  "is_path n p \<Longrightarrow> label_at n p = Some (is_accept (node_at n p), combo_name (node_at n p))"
  by (induction p arbitrary: n) (auto split: option.splits)

lemma next_state_path:
  "is_path n p \<Longrightarrow>
   StateNode_get_next_state (node_at n p) x =
     (if is_path n (p @ [x]) then Some (node_at n (p @ [x])) else None)"
  by (induction p arbitrary: n) (auto split: option.splits)

lemma is_path_prefix: "is_path n (p @ q) \<Longrightarrow> is_path n p"
  by (induction p arbitrary: n) (auto split: option.splits)

lemma prefix_Nil [simp]: "history_is_prefix p [] \<longleftrightarrow> p = []"
  by (cases p) auto

lemma prefix_refl [simp]: "history_is_prefix p p"
  by (induction p) auto

lemma prefix_append [simp]: "history_is_prefix p (p @ q)"
  by (induction p) auto

lemma prefix_length: "history_is_prefix p s \<Longrightarrow> length p \<le> length s"
  by (induction p s rule: history_is_prefix.induct) (auto split: if_splits)

lemma prefix_take: "history_is_prefix p s \<longleftrightarrow> take (length p) s = p"
  by (induction p s rule: history_is_prefix.induct) auto

lemma next_add_transition:
  "StateNode_get_next_state (StateNode_add_transition n x c) y =
     (if y = x then Some c else StateNode_get_next_state n y)"
  by (simp add: StateNode_get_next_state_def StateNode_add_transition_def update_conv')

lemma label_new: "label_at (StateNode_new c) p = (if p = [] then Some (False, None) else None)"
  by (cases p) (simp_all add: StateNode_new_def StateNode_get_next_state_def)

lemma add_transition_sel [simp]:
  "is_accept (StateNode_add_transition n x c) = is_accept n"
  "combo_name (StateNode_add_transition n x c) = combo_name n"
  by (simp_all add: StateNode_add_transition_def)

lemma label_add_combo:
  "label_at (fst (add_combo n s nm c)) p =
     (if p = s then Some (True, Some nm)
      else case label_at n p of
             Some l \<Rightarrow> Some l
           | None \<Rightarrow> if history_is_prefix p s then Some (False, None) else None)"
proof (induction s arbitrary: n p c)
  case Nil
  show ?case
    by (cases p) (auto simp: StateNode_get_next_state_def split: option.splits)
next
  case (Cons x xs)
  show ?case
  proof (cases p)
    case Nil
    then show ?thesis
      by (auto simp: Let_def split: prod.splits option.splits)
  next
    case (Cons y ys)
    show ?thesis
    proof (cases "StateNode_get_next_state n x")
      case None
      then have h: "\<not> StateNode_has_transition n x"
        by (simp add: StateNode_has_transition_def StateNode_get_next_state_def)
      obtain ch c1 where a: "add_combo (StateNode_new c) xs nm (c + 1) = (ch, c1)"
        by (cases "add_combo (StateNode_new c) xs nm (c + 1)") auto
      have ih: "label_at ch ys = (if ys = xs then Some (True, Some nm)
          else case label_at (StateNode_new c) ys of Some l \<Rightarrow> Some l
               | None \<Rightarrow> if history_is_prefix ys xs then Some (False, None) else None)"
        using Cons.IH[of "StateNode_new c" "c + 1" ys] a by simp
      show ?thesis
        using h a None Cons ih
        by (auto simp: next_add_transition label_new split: option.splits)
    next
      case (Some nx)
      then have h: "StateNode_has_transition n x"
        by (simp add: StateNode_has_transition_def StateNode_get_next_state_def)
      obtain ch c1 where a: "add_combo nx xs nm c = (ch, c1)"
        by (cases "add_combo nx xs nm c") auto
      have ih: "label_at ch ys = (if ys = xs then Some (True, Some nm)
          else case label_at nx ys of Some l \<Rightarrow> Some l
               | None \<Rightarrow> if history_is_prefix ys xs then Some (False, None) else None)"
        using Cons.IH[of nx c ys] a by simp
      show ?thesis
        using h a Some Cons ih
        by (auto simp: next_add_transition split: option.splits)
    qed
  qed
qed

lemma add_combos_snoc:
  "fst (add_combos st (cs @ [(s, nm)])) =
     fst (add_combo (fst (add_combos st cs)) s nm (snd (add_combos st cs)))"
  by (simp add: add_combos_def case_prod_beta)

lemma built_paths:
  "label_at (fst (add_combos st cs)) p \<noteq> None \<longleftrightarrow>
     label_at (fst st) p \<noteq> None \<or> (\<exists>(s, nm) \<in> set cs. history_is_prefix p s)"
proof (induction cs rule: rev_induct)
  case Nil
  show ?case by (simp add: add_combos_def)
next
  case (snoc c cs)
  obtain s nm where c: "c = (s, nm)" by (cases c)
  show ?case
    using snoc.IH unfolding c add_combos_snoc label_add_combo
    by (auto split: option.splits)
qed

lemma built_accepting:
  "label_at (fst (add_combos st cs)) p = Some (True, x) \<Longrightarrow>
     label_at (fst st) p = Some (True, x) \<or> (\<exists>nm. (p, nm) \<in> set cs \<and> x = Some nm)"
proof (induction cs rule: rev_induct)
  case Nil
  then show ?case by (simp add: add_combos_def)
next
  case (snoc c cs)
  obtain s nm where c: "c = (s, nm)" by (cases c)
  show ?case
    using snoc.IH snoc.prems unfolding c add_combos_snoc label_add_combo
    by (auto split: option.splits if_splits)
qed

lemma built_registered:
  "distinct (map fst cs) \<Longrightarrow> (s, nm) \<in> set cs \<Longrightarrow>
     label_at (fst (add_combos st cs)) s = Some (True, Some nm)"
proof (induction cs rule: rev_induct)
  case Nil
  then show ?case by simp
next
  case (snoc c cs)
  obtain s' nm' where c: "c = (s', nm')" by (cases c)
  show ?case
  proof (cases "(s, nm) = c")
    case True
    then show ?thesis unfolding c add_combos_snoc label_add_combo by simp
  next
    case False
    with snoc.prems have mem: "(s, nm) \<in> set cs" by auto
    from snoc.prems have d: "distinct (map fst cs)" by simp
    from snoc.prems(1) mem have "s \<noteq> s'" unfolding c by force
    with snoc.IH[OF d mem] show ?thesis
      unfolding c add_combos_snoc label_add_combo by simp
  qed
qed

lemma build_root:
  "root (CSM_build_from_combos m cs) = fst (add_combos (root m, state_counter m) cs)"
  "combo_list (CSM_build_from_combos m cs) = cs"
  "current_path (CSM_build_from_combos m cs) = current_path m"
  "input_history (CSM_build_from_combos m cs) = input_history m"
  by (simp_all add: CSM_build_from_combos_def add_combos_def case_prod_beta)

lemma process_input_inv:
  assumes "csm_inv m"
  shows "csm_inv (snd (CSM_process_input m x))
       \<and> root (snd (CSM_process_input m x)) = root m
       \<and> combo_list (snd (CSM_process_input m x)) = combo_list m"
proof -
  from assms have p: "is_path (root m) (current_path m)" and e: "current_path m = input_history m"
    by (simp_all add: csm_inv_def)
  show ?thesis
  proof (cases "StateNode_get_next_state (node_at (root m) (current_path m)) x")
    case None
    then show ?thesis
      by (auto simp: CSM_process_input_def CSM_check_accept_def CSM_reset_def csm_inv_def Let_def
          split: option.splits)
  next
    case (Some nx)
    with next_state_path[OF p, of x] have "is_path (root m) (current_path m @ [x])"
      by (auto split: if_splits)
    with Some e show ?thesis
      by (auto simp: CSM_process_input_def CSM_check_accept_def CSM_reset_def csm_inv_def Let_def)
  qed
qed

lemma feed_inv:
  "csm_inv m \<Longrightarrow>
   csm_inv (snd (CSM_feed m xs)) \<and> root (snd (CSM_feed m xs)) = root m
   \<and> combo_list (snd (CSM_feed m xs)) = combo_list m"
proof (induction xs arbitrary: m)
  case Nil
  then show ?case by simp
next
  case (Cons x xs)
  from process_input_inv[OF Cons.prems, of x]
  have a: "csm_inv (snd (CSM_process_input m x))"
    and b: "root (snd (CSM_process_input m x)) = root m"
    and c: "combo_list (snd (CSM_process_input m x)) = combo_list m" by simp_all
  from Cons.IH[OF a] b c show ?case
    by (simp add: case_prod_beta Let_def)
qed

lemma feed_registered:
  assumes "root m = R" "current_path m = pre" "input_history m = pre"
    "rest \<noteq> []" "label_at R (pre @ rest) = Some (True, Some nm)"
    "\<forall>k. 0 < k \<and> k < length rest \<longrightarrow> \<not> is_accept (node_at R (pre @ take k rest))"
  shows "fst (CSM_feed m rest) = replicate (length rest - 1) None @ [Some nm]"
  using assms
proof (induction rest arbitrary: m pre)
  case Nil
  then show ?case by simp
next
  case (Cons x rest')
  from Cons.prems(5) have path: "is_path R (pre @ x # rest')"
    using label_at_path[of R "pre @ x # rest'"] by simp
  then have p1: "is_path R (pre @ [x])"
    using is_path_prefix[of R "pre @ [x]" rest'] by simp
  then have p0: "is_path R pre" using is_path_prefix[of R pre "[x]"] by simp
  have nx: "StateNode_get_next_state (node_at (root m) (current_path m)) x
            = Some (node_at R (pre @ [x]))"
    using next_state_path[OF p0, of x] p1 Cons.prems(1,2) by simp
  let ?m1 = "m\<lparr>input_history := input_history m @ [x], current_path := current_path m @ [x]\<rparr>"
  have step: "CSM_process_input m x = CSM_check_accept ?m1"
    using nx by (simp add: CSM_process_input_def)
  show ?case
  proof (cases "rest' = []")
    case True
    with Cons.prems(5) label_at_node[OF p1]
    have "is_accept (node_at R (pre @ [x]))" "combo_name (node_at R (pre @ [x])) = Some nm"
      by simp_all
    with True step Cons.prems(1,2) show ?thesis
      by (simp add: CSM_check_accept_def Let_def case_prod_beta)
  next
    case False
    from Cons.prems(6) False have na: "\<not> is_accept (node_at R (pre @ [x]))"
      by (auto dest: spec[of _ 1])
    then have r: "CSM_process_input m x = (None, ?m1)"
      using step Cons.prems(1,2) by (simp add: CSM_check_accept_def Let_def)
    have hyp: "\<forall>k. 0 < k \<and> k < length rest' \<longrightarrow>
                 \<not> is_accept (node_at R ((pre @ [x]) @ take k rest'))"
    proof (intro allI impI)
      fix k assume "0 < k \<and> k < length rest'"
      then have "0 < Suc k \<and> Suc k < length (x # rest')" by simp
      with Cons.prems(6) have "\<not> is_accept (node_at R (pre @ take (Suc k) (x # rest')))"
        by blast
      then show "\<not> is_accept (node_at R ((pre @ [x]) @ take k rest'))" by simp
    qed
    have ih: "fst (CSM_feed ?m1 rest') = replicate (length rest' - 1) None @ [Some nm]"
      using Cons.IH[of ?m1 "pre @ [x]"] Cons.prems(1,2,3,5) False hyp by simp
    from False have "length rest' - 1 + 1 = length rest'" by (cases rest') auto
    then have "replicate (length rest') (None::string option)
                = None # replicate (length rest' - 1) None"
      by (metis Suc_eq_plus1 replicate_Suc)
    with r ih show ?thesis by (simp add: case_prod_beta Let_def)
  qed
qed

lemma longest_match_ge: "k \<le> longest_match h cs k"
proof (induction cs arbitrary: k)
  case Nil
  show ?case by simp
next
  case (Cons c cs)
  obtain s nm where c: "c = (s, nm)" by (cases c)
  show ?case
    using Cons.IH[of k] Cons.IH[of "length s"] unfolding c by auto
qed

lemma longest_match_mem:
  "(s, nm) \<in> set cs \<Longrightarrow> history_is_prefix h s \<Longrightarrow> length s \<le> longest_match h cs k"
proof (induction cs arbitrary: k)
  case Nil
  then show ?case by simp
next
  case (Cons c cs)
  obtain s' nm' where c: "c = (s', nm')" by (cases c)
  show ?case
  proof (cases "(s, nm) = c")
    case True
    then have e: "s' = s" unfolding c by simp
    show ?thesis
      using longest_match_ge[of "length s" h cs] longest_match_ge[of k h cs] Cons.prems(2)
      unfolding c e by auto
  next
    case False
    with Cons.prems have "(s, nm) \<in> set cs" by auto
    from Cons.IH[OF this Cons.prems(2)] show ?thesis unfolding c by auto
  qed
qed

lemma init_inv: "csm_inv (CSM_build_from_combos CSM_init combos)"
  by (simp add: csm_inv_def build_root CSM_init_def)

lemma built_root_init:
  "root (CSM_build_from_combos CSM_init combos) = fst (add_combos (StateNode_new 0, 1) combos)"
  by (simp add: build_root CSM_init_def)

lemmas csm_eval = CSM_build_from_combos_def CSM_init_def StateNode_new_def
  StateNode_has_transition_def StateNode_get_next_state_def StateNode_add_transition_def
  CSM_process_input_def CSM_check_accept_def CSM_reset_def Let_def
  CSM_get_progress_percentage_def

text \<open>
  Claim C2, as stated, fails: with the patterns \<open>a\<close> (label \<open>A\<close>) and \<open>a b\<close> (label \<open>AB\<close>),
  which have no duplicate sequence, feeding \<open>a b\<close> returns \<open>A\<close> on the first symbol (the
  first accept node reached resets the matcher) and \<open>None\<close> on the last.
\<close>

theorem trie_prefix_pattern_counterexample:
  "distinct (map fst [([''a''], ''A''), ([''a'', ''b''], ''AB'')])
   \<and> ([''a'', ''b''], ''AB'') \<in> set [([''a''], ''A''), ([''a'', ''b''], ''AB'')]
   \<and> fst (CSM_feed (CSM_build_from_combos CSM_init [([''a''], ''A''), ([''a'', ''b''], ''AB'')])
          [''a'', ''b'']) = [Some ''A'', None]"
  by (simp add: csm_eval)

text \<open>
  Claim C2, amended. For a pattern set with no duplicate sequences, a registered non-empty
  sequence of which no other non-empty registered sequence is a prefix, fed symbol by symbol
  to a matcher freshly built from the set, returns \<open>None\<close> for every symbol before the last
  one and the pattern's label on the last.
\<close>

theorem trie_feed_registered_sequence:
  assumes "distinct (map fst combos)" "(sequence, label) \<in> set combos" "sequence \<noteq> []"
    "\<forall>(s, l) \<in> set combos. s \<noteq> [] \<and> s \<noteq> sequence \<longrightarrow> \<not> history_is_prefix s sequence"
  shows "fst (CSM_feed (CSM_build_from_combos CSM_init combos) sequence)
         = replicate (length sequence - 1) None @ [Some label]"
proof -
  let ?m = "CSM_build_from_combos CSM_init combos"
  let ?R = "fst (add_combos (StateNode_new 0, 1) combos)"
  have lab: "label_at ?R ([] @ sequence) = Some (True, Some label)"
    using built_registered[OF assms(1,2)] by simp
  then have path: "is_path ?R sequence"
    using label_at_path[of ?R sequence] by simp
  have no: "\<forall>k. 0 < k \<and> k < length sequence \<longrightarrow>
              \<not> is_accept (node_at ?R ([] @ take k sequence))"
  proof (intro allI impI)
    fix k assume k: "0 < k \<and> k < length sequence"
    let ?q = "take k sequence"
    have q: "?q \<noteq> []" "?q \<noteq> sequence" "history_is_prefix ?q sequence"
      using k assms(3) by (auto simp: prefix_take min_def dest: arg_cong[of _ _ length])
    have "is_path ?R (?q @ drop k sequence)" using path by simp
    then have pq: "is_path ?R ?q" by (rule is_path_prefix)
    show "\<not> is_accept (node_at ?R ([] @ ?q))"
    proof
      assume "is_accept (node_at ?R ([] @ ?q))"
      with label_at_node[OF pq]
      have "label_at ?R ?q = Some (True, combo_name (node_at ?R ?q))" by simp
      from built_accepting[OF this] q(1)
      obtain nm where "(?q, nm) \<in> set combos" by (auto simp: label_new)
      with assms(4) q show False by blast
    qed
  qed
  show ?thesis
    using feed_registered[of ?m ?R "[]" sequence label] lab no assms(3)
    by (simp add: built_root_init build_root CSM_init_def)
qed

theorem trie_feed_registered_sequence_witness:
  "distinct (map fst [([''a'', ''b''], ''AB''), ([''c''], ''C'')])
   \<and> ([''a'', ''b''], ''AB'') \<in> set [([''a'', ''b''], ''AB''), ([''c''], ''C'')]
   \<and> \<not> history_is_prefix [''c''] [''a'', ''b'']
   \<and> fst (CSM_feed (CSM_build_from_combos CSM_init [([''a'', ''b''], ''AB''), ([''c''], ''C'')])
          [''a'', ''b'']) = [None, Some ''AB'']"
  using trie_feed_registered_sequence[of "[([''a'', ''b''], ''AB''), ([''c''], ''C'')]"
      "[''a'', ''b'']" "''AB''"]
  by simp

text \<open>
  Claim C10. After any sequence of \<open>process_input\<close> calls on a matcher freshly built from any
  pattern set, the progress value lies between 0 and 1 and is 0 exactly when the history is
  empty; the history is a path from the root and, when it is not empty, a prefix of a
  registered pattern, so its length is at most that of the longest pattern it is a prefix of.
\<close>

theorem progress_fraction_bounds:
  "(let m = snd (CSM_feed (CSM_build_from_combos CSM_init combos) inputs)
    in 0 \<le> CSM_get_progress_percentage m \<and> CSM_get_progress_percentage m \<le> 1
       \<and> (CSM_get_progress_percentage m = 0 \<longleftrightarrow> input_history m = [])
       \<and> is_path (root m) (input_history m)
       \<and> (input_history m \<noteq> [] \<longrightarrow>
            (\<exists>(s, nm) \<in> set combos. history_is_prefix (input_history m) s)
            \<and> length (input_history m) \<le> longest_match (input_history m) combos 0))"
proof -
  let ?m = "snd (CSM_feed (CSM_build_from_combos CSM_init combos) inputs)"
  let ?R = "fst (add_combos (StateNode_new 0, 1) combos)"
  let ?h = "input_history ?m"
  from feed_inv[OF init_inv, of combos inputs]
  have inv: "csm_inv ?m" and r: "root ?m = ?R" and c: "combo_list ?m = combos"
    by (simp_all add: build_root CSM_init_def)
  from inv r have path: "is_path (root ?m) ?h" by (simp add: csm_inv_def)
  have ex: "\<exists>(s, nm) \<in> set combos. history_is_prefix ?h s" if "?h \<noteq> []"
  proof -
    from path r have "is_path ?R ?h" by simp
    then have "label_at ?R ?h \<noteq> None" by (simp only: label_at_path)
    with built_paths[of "(StateNode_new 0, 1)" combos ?h] that show ?thesis
      by (auto simp: label_new)
  qed
  have len: "length ?h \<le> longest_match ?h combos 0" if "?h \<noteq> []"
  proof -
    from ex[OF that] obtain s nm where m: "(s, nm) \<in> set combos" and p: "history_is_prefix ?h s"
      by auto
    from prefix_length[OF p] longest_match_mem[OF m p, of 0] show ?thesis by simp
  qed
  have val: "CSM_get_progress_percentage ?m =
      (if ?h = [] then 0 else of_nat (length ?h) / of_nat (longest_match ?h combos 0))"
    using len c by (auto simp: CSM_get_progress_percentage_def Let_def)
  have b: "0 \<le> CSM_get_progress_percentage ?m \<and> CSM_get_progress_percentage ?m \<le> 1
      \<and> (CSM_get_progress_percentage ?m = 0 \<longleftrightarrow> ?h = [])"
  proof (cases "?h = []")
    case True
    then show ?thesis unfolding val by simp
  next
    case False
    then have n: "0 < length ?h" by simp
    with len[OF False] have M: "0 < longest_match ?h combos 0" by linarith
    have "(of_nat (length ?h) :: rat) \<le> of_nat (longest_match ?h combos 0)"
      using len[OF False] by (simp only: of_nat_le_iff)
    with n M False show ?thesis unfolding val by (simp add: divide_le_eq_1)
  qed
  from b path ex len show ?thesis by (simp add: Let_def)
qed

theorem progress_fraction_bounds_witness:
  "input_history (snd (CSM_feed (CSM_build_from_combos CSM_init
       [([''a'', ''b'', ''c''], ''ABC''), ([''a'', ''d''], ''AD'')]) [''x'', ''a'', ''b'']))
     = [''a'', ''b'']
   \<and> CSM_get_progress_percentage (snd (CSM_feed (CSM_build_from_combos CSM_init
       [([''a'', ''b'', ''c''], ''ABC''), ([''a'', ''d''], ''AD'')]) [''x'', ''a'', ''b''])) = 2 / 3
   \<and> history_is_prefix [''a'', ''b''] [''a'', ''b'', ''c'']
   \<and> longest_match [''a'', ''b''] [([''a'', ''b'', ''c''], ''ABC''), ([''a'', ''d''], ''AD'')] 0 = 3"
  using progress_fraction_bounds[of "[([''a'', ''b'', ''c''], ''ABC''), ([''a'', ''d''], ''AD'')]"
      "[''x'', ''a'', ''b'']"]
  by (simp add: csm_eval)

subsection \<open>The postfix and prefix validators\<close>

lemma prefix_loop_postfix_loop:
  "prefix_validate_loop p toks c (map mark_rtl tr) =
     map_sum (\<lambda>(r, p'). (to_prefix_result r, p')) (\<lambda>(c', p', t). (c', p', map mark_rtl t))
       (postfix_validate_loop p toks c tr)"
proof (induction toks arbitrary: p c tr)
  case Nil
  show ?case by simp
next
  case (Cons t ts)
  have a: "prefix_validate_loop (p\<lparr>stack := PDAStack_push (stack p) ''X''\<rparr>) ts (c + 1)
        (map mark_rtl (tr @ [CountStep t ''OPERAND'' False (c + 1)
           (PDAStack_get_contents (PDAStack_push (stack p) ''X''))])) = 
      map_sum (\<lambda>(r, p'). (to_prefix_result r, p')) (\<lambda>(c', p', t). (c', p', map mark_rtl t))
       (postfix_validate_loop (p\<lparr>stack := PDAStack_push (stack p) ''X''\<rparr>) ts (c + 1)
          (tr @ [CountStep t ''OPERAND'' False (c + 1)
           (PDAStack_get_contents (PDAStack_push (stack p) ''X''))]))"
    by (rule Cons.IH)
  have b: "prefix_validate_loop (p\<lparr>stack := snd (PDAStack_pop (stack p))\<rparr>) ts (c - 1)
        (map mark_rtl (tr @ [CountStep t ''OPERATOR'' False (c - 1)
           (PDAStack_get_contents (snd (PDAStack_pop (stack p))))])) = 
      map_sum (\<lambda>(r, p'). (to_prefix_result r, p')) (\<lambda>(c', p', t). (c', p', map mark_rtl t))
       (postfix_validate_loop (p\<lparr>stack := snd (PDAStack_pop (stack p))\<rparr>) ts (c - 1)
          (tr @ [CountStep t ''OPERATOR'' False (c - 1)
           (PDAStack_get_contents (snd (PDAStack_pop (stack p))))]))"
    by (rule Cons.IH)
  show ?case
    using a b by (simp add: Let_def to_prefix_result_def prefix_wording_def)
qed

lemma prefix_validate_as_postfix:
  "PrefixValidator_validate pda e =
     (\<lambda>(r, p'). (to_prefix_result r, p'))
       (PostfixValidator_validate_tokens (PDA_reset pda) (rev (tokenize_prefix e)))"
  using prefix_loop_postfix_loop[of "PDA_reset pda" "rev (tokenize_prefix e)" 0 "[]"]
  by (cases "postfix_validate_loop (PDA_reset pda) (rev (tokenize_prefix e)) 0 []")
     (auto simp: PrefixValidator_validate_def PostfixValidator_validate_tokens_def Let_def
       to_prefix_result_def prefix_wording_def)

text \<open>
  Claim C7. The prefix validator gives, on an expression, the verdict, the message (up to the
  name of the notation in the two messages that mention it) and the final state that the
  postfix validator's counting gives on the reversed token sequence; this covers the
  rejection of parentheses and of invalid tokens.
\<close>

theorem prefix_validator_is_postfix_discipline_on_reversed_tokens:
  "(let r = fst (PrefixValidator_validate pda e);
        r' = fst (PostfixValidator_validate_tokens (PDA_reset pda) (rev (tokenize_prefix e)))
    in is_valid r = is_valid r' \<and> message r = prefix_wording (message r')
       \<and> final_state r = final_state r')"
  by (simp add: prefix_validate_as_postfix case_prod_beta to_prefix_result_def Let_def)

lemma operand_counter_positive:
  "operand_counter toks c = Inr c' \<Longrightarrow> toks \<noteq> [] \<or> 1 \<le> c \<Longrightarrow> 1 \<le> c'"
proof (induction toks arbitrary: c)
  case Nil
  then show ?case by simp
next
  case (Cons t ts)
  show ?case
  proof (cases "classify_token t = ''OPERAND''")
    case True
    with Cons.prems(1) have "operand_counter ts (c + 1) = Inr c'" by simp
    from Cons.IH[OF this] show ?thesis by simp
  next
    case False
    with Cons.prems(1) have c: "\<not> c < 2" and "operand_counter ts (c - 1) = Inr c'"
      by (auto split: if_splits)
    from c have "ts \<noteq> [] \<or> 1 \<le> c - 1" by arith
    from Cons.IH[OF \<open>operand_counter ts (c - 1) = Inr c'\<close> this] show ?thesis .
  qed
qed

lemma postfix_loop_fails:
  assumes "\<forall>t \<in> set toks. classify_token t = ''OPERAND'' \<or> classify_token t = ''OPERATOR''"
    "operand_counter toks c = Inl tok"
  shows "\<exists>tr' p'. postfix_validate_loop p toks c tr =
                Inl (\<lparr>is_valid = False, result_notation = POSTFIX,
                       message = ''Not enough operands for operator '' @ [CHR 0x27] @ tok
                                 @ [CHR 0x27],
                       execution_trace = tr', final_state = ''q_error''\<rparr>, p')"
  using assms
proof (induction toks arbitrary: p c tr)
  case Nil
  then show ?case by simp
next
  case (Cons t ts)
  from Cons.prems have ts: "\<forall>t \<in> set ts. classify_token t = ''OPERAND'' \<or> classify_token t = ''OPERATOR''"
    and t: "classify_token t = ''OPERAND'' \<or> classify_token t = ''OPERATOR''" by simp_all
  show ?case
  proof (cases "classify_token t = ''OPERAND''")
    case True
    with Cons.prems(2) have "operand_counter ts (c + 1) = Inl tok" by simp
    from Cons.IH[OF ts this] True show ?thesis by (simp add: Let_def)
  next
    case False
    with t have o: "classify_token t = ''OPERATOR''" by simp
    show ?thesis
    proof (cases "c < 2")
      case True
      with o Cons.prems(2) show ?thesis by (simp add: Let_def)
    next
      case False
      with o Cons.prems(2) have "operand_counter ts (c - 1) = Inl tok" by simp
      from Cons.IH[OF ts this] False o show ?thesis by (simp add: Let_def)
    qed
  qed
qed

lemma postfix_loop_counts:
  assumes "\<forall>t \<in> set toks. classify_token t = ''OPERAND'' \<or> classify_token t = ''OPERATOR''"
    "operand_counter toks c = Inr c'"
  shows "\<exists>p' tr'. postfix_validate_loop p toks c tr = Inr (c', p', tr')"
  using assms
proof (induction toks arbitrary: p c tr)
  case Nil
  then show ?case by simp
next
  case (Cons t ts)
  from Cons.prems have ts: "\<forall>t \<in> set ts. classify_token t = ''OPERAND'' \<or> classify_token t = ''OPERATOR''"
    and t: "classify_token t = ''OPERAND'' \<or> classify_token t = ''OPERATOR''" by simp_all
  show ?case
  proof (cases "classify_token t = ''OPERAND''")
    case True
    with Cons.prems(2) have "operand_counter ts (c + 1) = Inr c'" by simp
    from Cons.IH[OF ts this] True show ?thesis by (simp add: Let_def)
  next
    case False
    with t have o: "classify_token t = ''OPERATOR''" by simp
    show ?thesis
    proof (cases "c < 2")
      case True
      with o Cons.prems(2) show ?thesis by (simp add: Let_def)
    next
      case False
      with o Cons.prems(2) have "operand_counter ts (c - 1) = Inr c'" by simp
      from Cons.IH[OF ts this] False o show ?thesis by (simp add: Let_def)
    qed
  qed
qed

lemmas tok_eval = tokenize_postfix_def py_split_def py_strip_def py_isspace_def py_isdigit_def
  OPERATORS_def classify_token_def startswith_def tokenize_infix_def DIGITS_def PARENTHESES_def
  tokenize_prefix_def

text \<open>
  Claim C5, as stated, fails at the empty input: all of its (no) tokens are operands and
  operators and the counter is 0 at the end, but the message is the one for an empty
  expression, not the one for an incomplete expression.
\<close>

theorem postfix_empty_input_counterexample:
  "tokenize_postfix [] = [] \<and> operand_counter (tokenize_postfix []) 0 = Inr 0
   \<and> map_sum id (\<lambda>r. (is_valid r, message r)) (validate_postfix []) = Inr (False, ''Empty expression'')"
  by (simp add: tok_eval validate_postfix_def PostfixValidator_build_pda_def bind_err_def
      PDA_add_transition_def PDA_add_state_def PDA_init_def Let_def
      PostfixValidator_validate_def PostfixValidator_validate_tokens_def)

text \<open>
  Claim C5, amended. For a postfix input whose tokens are all operands and operators: with no
  tokens the result is invalid with the empty-expression message; otherwise every operand
  adds one to the counter and every operator needs a counter of at least 2 and takes one off,
  failing with the not-enough-operands message for that operator when it is smaller; at the
  end of a non-empty input the counter is at least 1, the result is valid exactly when it is
  1, and a larger counter gives the too-many-operands message.
\<close>

theorem postfix_validator_counts_operands:
  assumes "\<forall>t \<in> set (tokenize_postfix e).
             classify_token t = ''OPERAND'' \<or> classify_token t = ''OPERATOR''"
  shows "(let r = fst (PostfixValidator_validate pda e); tokens = tokenize_postfix e
          in if tokens = [] then \<not> is_valid r \<and> message r = ''Empty expression''
             else (case operand_counter tokens 0 of
                     Inl tok \<Rightarrow>
                       \<not> is_valid r \<and>
                       message r = ''Not enough operands for operator '' @ [CHR 0x27] @ tok
                                   @ [CHR 0x27]
                   | Inr c \<Rightarrow>
                       1 \<le> c \<and> (is_valid r \<longleftrightarrow> c = 1) \<and>
                       (1 < c \<longrightarrow> message r = ''Too many operands ('' @ str_nat c
                                               @ '') - missing operators'')))"
proof (cases "tokenize_postfix e = []")
  case True
  then show ?thesis
    by (simp add: PostfixValidator_validate_def PostfixValidator_validate_tokens_def Let_def)
next
  case False
  show ?thesis
  proof (cases "operand_counter (tokenize_postfix e) 0")
    case (Inl tok)
    with postfix_loop_fails[OF assms Inl, of "PDA_reset pda" "[]"] False show ?thesis
      by (auto simp: PostfixValidator_validate_def PostfixValidator_validate_tokens_def Let_def)
  next
    case (Inr c)
    from operand_counter_positive[OF Inr] False have c: "1 \<le> c" by simp
    from postfix_loop_counts[OF assms Inr, of "PDA_reset pda" "[]"]
    obtain p' tr' where l: "postfix_validate_loop (PDA_reset pda) (tokenize_postfix e) 0 [] = Inr (c, p', tr')"
      by blast
    show ?thesis
    proof (cases "c = 1")
      case True
      with Inr l False show ?thesis
        by (simp add: PostfixValidator_validate_def PostfixValidator_validate_tokens_def Let_def)
    next
      case F: False
      with c have "1 < c" by simp
      with Inr l False F show ?thesis
        by (simp add: PostfixValidator_validate_def PostfixValidator_validate_tokens_def Let_def)
    qed
  qed
qed

theorem postfix_validator_counts_operands_witness:
  "map classify_token (tokenize_postfix ''3 4 +'') = [''OPERAND'', ''OPERAND'', ''OPERATOR'']
   \<and> operand_counter (tokenize_postfix ''3 4 +'') 0 = Inr 1
   \<and> is_valid (fst (PostfixValidator_validate (PDA_init []) ''3 4 +''))
   \<and> operand_counter (tokenize_postfix ''3 4'') 0 = Inr 2
   \<and> message (fst (PostfixValidator_validate (PDA_init []) ''3 4''))
       = ''Too many operands (2) - missing operators''
   \<and> operand_counter (tokenize_postfix ''+'') 0 = Inl ''+''
   \<and> message (fst (PostfixValidator_validate (PDA_init []) ''+''))
       = ''Not enough operands for operator '+'' @ [CHR 0x27]"
proof -
  have t1: "tokenize_postfix ''3 4 +'' = [''3'', ''4'', ''+'']"
    and t2: "tokenize_postfix ''3 4'' = [''3'', ''4'']"
    and t3: "tokenize_postfix ''+'' = [''+'']"
    by (simp_all add: tok_eval)
  have c: "classify_token ''3'' = ''OPERAND''" "classify_token ''4'' = ''OPERAND''"
    "classify_token ''+'' = ''OPERATOR''"
    by (simp_all add: tok_eval)
  have s: "str_nat (Suc (Suc 0)) = ''2''" by (simp add: str_nat.simps)
  show ?thesis
    using postfix_validator_counts_operands[of "''3 4 +''" "PDA_init []"]
      postfix_validator_counts_operands[of "''3 4''" "PDA_init []"]
      postfix_validator_counts_operands[of "''+''" "PDA_init []"]
    unfolding t1 t2 t3 by (simp add: c s Let_def)
qed

subsection \<open>The infix validator\<close>

lemma infix_loop_run:
  assumes "current_state p \<noteq> None" "\<forall>t \<in> set toks. classify_token t \<noteq> ''INVALID''"
    "PDA_run p (map classify_token toks) = Some pf"
  shows "\<exists>tr'. infix_validate_loop p toks tr = Inr (Inr (pf, tr'))"
  using assms
proof (induction toks arbitrary: p tr)
  case Nil
  then show ?case by simp
next
  case (Cons t ts)
  from step_total[OF Cons.prems(1), of "classify_token t"] obtain r p1
    where s: "PDA_step p (classify_token t) = Inr (r, p1)" and c1: "current_state p1 \<noteq> None"
    by blast
  from Cons.prems(3) s have ok: "fst r" and run: "PDA_run p1 (map classify_token ts) = Some pf"
    by (auto split: if_splits)
  from Cons.prems(1) obtain b where b: "current_state p = Some b" by auto
  from c1 obtain a where a: "current_state p1 = Some a" by auto
  from Cons.prems(2) have ts: "\<forall>t \<in> set ts. classify_token t \<noteq> ''INVALID''"
    and t: "classify_token t \<noteq> ''INVALID''" by simp_all
  from Cons.IH[OF c1 ts run] obtain tr' where
    "infix_validate_loop p1 ts (tr @ [InfixStep t (classify_token t) (name b) (name a)
        (PDAStack_get_contents (stack p1))]) = Inr (Inr (pf, tr'))" by blast
  with s ok a b t show ?case
    by (cases r) (simp add: Let_def PDA_get_current_configuration_def)
qed

lemma infix_loop_fail:
  assumes "current_state p \<noteq> None" "\<forall>t \<in> set toks. classify_token t \<noteq> ''INVALID''"
    "PDA_run p (map classify_token toks) = None"
  shows "\<exists>r p'. infix_validate_loop p toks tr = Inr (Inl (r, p')) \<and> \<not> is_valid r"
  using assms
proof (induction toks arbitrary: p tr)
  case Nil
  then show ?case by simp
next
  case (Cons t ts)
  from step_total[OF Cons.prems(1), of "classify_token t"] obtain r p1
    where s: "PDA_step p (classify_token t) = Inr (r, p1)" and c1: "current_state p1 \<noteq> None"
    by blast
  from Cons.prems(1) obtain b where b: "current_state p = Some b" by auto
  from c1 obtain a where a: "current_state p1 = Some a" by auto
  from Cons.prems(2) have ts: "\<forall>t \<in> set ts. classify_token t \<noteq> ''INVALID''"
    and t: "classify_token t \<noteq> ''INVALID''" by simp_all
  show ?case
  proof (cases "fst r")
    case True
    with Cons.prems(3) s have run: "PDA_run p1 (map classify_token ts) = None" by simp
    from Cons.IH[OF c1 ts run] obtain r' p' where
      "infix_validate_loop p1 ts (tr @ [InfixStep t (classify_token t) (name b) (name a)
          (PDAStack_get_contents (stack p1))]) = Inr (Inl (r', p')) \<and> \<not> is_valid r'" by blast
    with s True a b t show ?thesis
      by (cases r) (simp add: Let_def PDA_get_current_configuration_def)
  next
    case False
    with s a b t show ?thesis
      by (cases r) (simp add: Let_def PDA_get_current_configuration_def)
  qed
qed

lemma run_current:
  "current_state p \<noteq> None \<Longrightarrow> PDA_run p syms = Some pf \<Longrightarrow> current_state pf \<noteq> None"
proof (induction syms arbitrary: p)
  case Nil
  then show ?case by simp
next
  case (Cons x xs)
  from step_total[OF Cons.prems(1), of x] obtain r p1
    where s: "PDA_step p x = Inr (r, p1)" and c1: "current_state p1 \<noteq> None" by blast
  from Cons.prems(2) s have "PDA_run p1 xs = Some pf" by (auto split: if_splits)
  from Cons.IH[OF c1 this] show ?case .
qed

lemma infix_validate_general:
  assumes "map_option name (initial_state pda) = Some ''q_start''"
    "\<forall>t \<in> set (tokenize_infix e). classify_token t \<noteq> ''INVALID''"
  shows "\<exists>r p'. InfixValidator_validate pda e = Inr (r, p') \<and>
      (is_valid r \<longleftrightarrow>
         (\<exists>pf. PDA_run (PDA_reset pda) (map classify_token (tokenize_infix e)) = Some pf \<and>
               map_option name (current_state pf) = Some ''q_expect_operator'' \<and>
               PDAStack_is_empty (stack pf))) \<and>
      (\<forall>pf. PDA_run (PDA_reset pda) (map classify_token (tokenize_infix e)) = Some pf \<and>
            \<not> PDAStack_is_empty (stack pf) \<longrightarrow> message r = ''Unmatched opening parenthesis'')"
proof -
  let ?p = "PDA_reset pda"
  let ?toks = "tokenize_infix e"
  have c: "current_state ?p \<noteq> None" using assms(1) by (auto simp: reset_current)
  show ?thesis
  proof (cases "?toks = []")
    case True
    have "map_option name (current_state ?p) = Some ''q_start''"
      using assms(1) by (simp add: reset_current)
    moreover have "PDAStack_is_empty (stack ?p)"
      by (simp add: PDA_reset_def PDAStack_clear_def PDAStack_is_empty_def)
    ultimately show ?thesis using True
      by (auto simp: InfixValidator_validate_def Let_def)
  next
    case False
    show ?thesis
    proof (cases "PDA_run ?p (map classify_token ?toks)")
      case None
      from infix_loop_fail[OF c assms(2) None, of "[]"] obtain r p'
        where "infix_validate_loop ?p ?toks [] = Inr (Inl (r, p'))" "\<not> is_valid r" by blast
      with None False show ?thesis
        by (simp add: InfixValidator_validate_def Let_def)
    next
      case (Some pf)
      from infix_loop_run[OF c assms(2) Some, of "[]"] obtain tr'
        where l: "infix_validate_loop ?p ?toks [] = Inr (Inr (pf, tr'))" by blast
      from run_current[OF c Some] obtain cur where cur: "current_state pf = Some cur" by auto
      from Some False l cur show ?thesis
        by (simp add: InfixValidator_validate_def Let_def)
    qed
  qed
qed

lemma infix_build_start:
  "\<exists>pda. InfixValidator_build_pda = Inr pda \<and> map_option name (initial_state pda) = Some ''q_start''"
  by (simp add: InfixValidator_build_pda_def bind_err_def PDA_add_transition_def
      PDA_add_state_def PDA_init_def Let_def)

text \<open>
  Claim C4. For an input without invalid tokens, the infix validator (on the automaton it
  builds) returns a result that is valid exactly when stepping through the classified tokens
  succeeds at every token and ends in the state \<open>q_expect_operator\<close> with an empty stack
  (for an input without tokens the automaton stays in \<open>q_start\<close> and the result is
  invalid); and whenever all tokens are stepped through and the stack is not empty at the
  end, the message is the one for an unmatched opening parenthesis.
\<close>

theorem infix_validator_acceptance:
  assumes "\<forall>t \<in> set (tokenize_infix e). classify_token t \<noteq> ''INVALID''"
  shows "\<exists>pda r. InfixValidator_build_pda = Inr pda \<and> validate_infix e = Inr r \<and>
      (is_valid r \<longleftrightarrow>
         (\<exists>pf. PDA_run (PDA_reset pda) (map classify_token (tokenize_infix e)) = Some pf \<and>
               map_option name (current_state pf) = Some ''q_expect_operator'' \<and>
               PDAStack_is_empty (stack pf))) \<and>
      (\<forall>pf. PDA_run (PDA_reset pda) (map classify_token (tokenize_infix e)) = Some pf \<and>
            \<not> PDAStack_is_empty (stack pf) \<longrightarrow> message r = ''Unmatched opening parenthesis'')"
proof -
  from infix_build_start obtain pda where b: "InfixValidator_build_pda = Inr pda"
    and i: "map_option name (initial_state pda) = Some ''q_start''" by blast
  from infix_validate_general[OF i assms] obtain r p' where
    v: "InfixValidator_validate pda e = Inr (r, p')" and
    rest: "(is_valid r \<longleftrightarrow>
         (\<exists>pf. PDA_run (PDA_reset pda) (map classify_token (tokenize_infix e)) = Some pf \<and>
               map_option name (current_state pf) = Some ''q_expect_operator'' \<and>
               PDAStack_is_empty (stack pf)))"
      "(\<forall>pf. PDA_run (PDA_reset pda) (map classify_token (tokenize_infix e)) = Some pf \<and>
            \<not> PDAStack_is_empty (stack pf) \<longrightarrow> message r = ''Unmatched opening parenthesis'')"
    by blast
  have "validate_infix e = Inr r"
    using v unfolding validate_infix_def bind_err_def b by simp
  with b rest show ?thesis by blast
qed

theorem infix_validator_acceptance_witness:
  "map classify_token (tokenize_infix ''(3+4'') = [''LPAREN'', ''OPERAND'', ''OPERATOR'', ''OPERAND'']
   \<and> map_sum id (\<lambda>r. (is_valid r, message r)) (validate_infix ''(3+4'')
       = Inr (False, ''Unmatched opening parenthesis'')
   \<and> map classify_token (tokenize_infix ''3+4'') = [''OPERAND'', ''OPERATOR'', ''OPERAND'']
   \<and> map_sum id (\<lambda>r. (is_valid r, message r)) (validate_infix ''3+4'')
       = Inr (True, ''Valid infix expression'')"
proof -
  have t1: "tokenize_infix ''(3+4'' = [''('', ''3'', ''+'', ''4'']"
    and t2: "tokenize_infix ''3+4'' = [''3'', ''+'', ''4'']"
    by (simp_all add: tok_eval)
  have c: "classify_token ''3'' = ''OPERAND''" "classify_token ''4'' = ''OPERAND''"
    "classify_token ''+'' = ''OPERATOR''" "classify_token ''('' = ''LPAREN''"
    by (simp_all add: tok_eval)
  have v1: "map_sum id (\<lambda>r. (is_valid r, message r)) (validate_infix ''(3+4'')
       = Inr (False, ''Unmatched opening parenthesis'')"
    by code_simp
  have v2: "map_sum id (\<lambda>r. (is_valid r, message r)) (validate_infix ''3+4'')
       = Inr (True, ''Valid infix expression'')"
    by code_simp
  show ?thesis
    using infix_validator_acceptance[of "''(3+4''"] infix_validator_acceptance[of "''3+4''"]
    unfolding t1 t2 using v1 v2 by (simp add: c)
qed

end
